theory Spec2Isabelle
  imports Complex_Main
begin

section \<open>Data model\<close>

text \<open>
  The simulation keeps its data in positional Python lists. A plan is
  \<^verbatim>\<open>[ISP name, service type, speed or GB, locations, price, wholesale supplier]\<close>;
  field 1 holds the string \<^verbatim>\<open>'mobile'\<close> or \<^verbatim>\<open>'wifi'\<close> until a plan experiment removes
  the plan, when field 0 becomes \<^verbatim>\<open>"PLAN GONE"\<close> and field 1 the position of the
  replacement in the month's replacement list. Python floats are modelled as reals.
\<close>

datatype svc = Svc string | Repl nat

record plan =
  plan_isp :: string
  service :: svc
  capacity :: real
  footprint :: string
  price :: real
  supplier :: string

text \<open>
  A price experiment is \<^verbatim>\<open>[(plan, index), change, months_left, prev_profit]\<close>. Its
  \<^verbatim>\<open>plan\<close> is the very list object at position \<^verbatim>\<open>index\<close> of the firm's plans and is not
  read again, so the record keeps the index only.
\<close>

record price_experiment =
  pe_index :: nat
  pe_change :: real
  pe_months_left :: int
  pe_prev_profit :: real

text \<open>
  An ISP is \<^verbatim>\<open>[name, plans, mobile offered?, mobile locations or None, wifi offered?,
  wifi locations or None, price experiment or False, tech experiment or False, profit,
  moneypool]\<close>. Only whether a tech experiment is running matters below.
\<close>

record isp =
  isp_name :: string
  plans_offered :: "plan list"
  mobile_offered :: bool
  mobile_locations :: "nat list option"
  wifi_offered :: bool
  wifi_locations :: "nat list option"
  price_exp :: "price_experiment option"
  tech_exp :: bool
  profit :: real
  moneypool :: real

datatype py_error = IndexError | ZeroDivisionError | TypeError | ValueError | UnboundLocalError

section \<open>Marketing spend\<close>

text \<open>
  \<^verbatim>\<open>pick_operators\<close>, the weight of one candidate firm:
  \<^verbatim>\<open>if ISPs[choice][8] <= 0: marketing_budget = MarketingBudget * ISPs[choice][9]
  else: marketing_budget = MarketingBudget * ISPs[choice][8]\<close>
\<close>

definition marketing_budget :: "real \<Rightarrow> isp \<Rightarrow> real" where
  "marketing_budget MarketingBudget i =
     (if profit i \<le> 0 then MarketingBudget * moneypool i
      else MarketingBudget * profit i)"

text \<open>
  \<^verbatim>\<open>update_ISP_profits_and_moneypool\<close>, step 2, the marketing expense of one firm:
  \<^verbatim>\<open>if ISPs[isp][8] == 0: marketing_expenditure = MarketingBudget * ISPs[isp][9]
  else: marketing_expenditure = MarketingBudget * ISPs[isp][8]\<close>
\<close>

definition marketing_expenditure :: "real \<Rightarrow> isp \<Rightarrow> real" where
  "marketing_expenditure MarketingBudget i =
     (if profit i = 0 then MarketingBudget * moneypool i
      else MarketingBudget * profit i)"

text \<open>\<^verbatim>\<open>len(ISPs[isp][3])\<close> raises a TypeError when the location list is None.\<close>

definition len_locations :: "nat list option \<Rightarrow> py_error + nat" where
  "len_locations locs = (case locs of None \<Rightarrow> Inl TypeError | Some l \<Rightarrow> Inr (length l))"

text \<open>
  Step 2 for the firm at position \<open>idx\<close>: the reseller fee per operating location, the
  marketing expense, and the wholesaler fee of the first four firms.
\<close>

definition total_expenditure ::
  "real \<Rightarrow> real \<Rightarrow> real \<Rightarrow> nat \<Rightarrow> isp \<Rightarrow> py_error + real" where
  "total_expenditure ResellerOperatingFee WholesalerOperatingFee MarketingBudget idx i =
     (case (if mobile_offered i then len_locations (mobile_locations i) else Inr 0) of
        Inl e \<Rightarrow> Inl e
      | Inr nm \<Rightarrow>
     (case (if wifi_offered i then len_locations (wifi_locations i) else Inr 0) of
        Inl e \<Rightarrow> Inl e
      | Inr nw \<Rightarrow>
        let reseller_operation_cost = ResellerOperatingFee * real (nm + nw);
            base = reseller_operation_cost + marketing_expenditure MarketingBudget i
        in if idx = 0 \<or> idx = 2 then
             (case len_locations (mobile_locations i) of
                Inl e \<Rightarrow> Inl e
              | Inr n \<Rightarrow> Inr (base + WholesalerOperatingFee * real n))
           else if idx = 1 \<or> idx = 3 then
             (case len_locations (mobile_locations i) of
                Inl e \<Rightarrow> Inl e
              | Inr n \<Rightarrow> Inr (base + (1/2) * WholesalerOperatingFee * real n))
           else Inr base))"

text \<open>
  Steps 2 and 3 for one firm, from its sales margin of step 1: the expenses are deducted,
  the result becomes the profit and 5 percent of it goes to the moneypool.
\<close>

definition update_isp ::
  "real \<Rightarrow> real \<Rightarrow> real \<Rightarrow> nat \<Rightarrow> real \<Rightarrow> isp \<Rightarrow> py_error + isp" where
  "update_isp ResellerOperatingFee WholesalerOperatingFee MarketingBudget idx sales i =
     (case total_expenditure ResellerOperatingFee WholesalerOperatingFee MarketingBudget idx i of
        Inl e \<Rightarrow> Inl e
      | Inr expenditure \<Rightarrow>
          let p = sales - expenditure
          in Inr (i\<lparr>profit := p, moneypool := moneypool i + (5/100) * p\<rparr>))"

section \<open>Switching costs\<close>

text \<open>
  \<^verbatim>\<open>all_agents_updates\<close>, the update of one populated cell's switching cost:
  \<^verbatim>\<open>if switchers[row, cell] == 0:
      if dynamic_switching_costs[row, cell] < 1:
          dynamic_switching_costs[row, cell] += SwitchingCostIncrease
  else:
      dynamic_switching_costs[row, cell] = 0\<close>
\<close>

definition update_switching_cost :: "int \<Rightarrow> real \<Rightarrow> real \<Rightarrow> real" where
  "update_switching_cost switcher cost SwitchingCostIncrease =
     (if switcher = 0 then
        (if cost < 1 then cost + SwitchingCostIncrease else cost)
      else 0)"

section \<open>Household decision engine\<close>

text \<open>
  A household is \<^verbatim>\<open>[location, populated?, income, bundle, percent of income spent]\<close>,
  the bundle a pair of a mobile plan or None and a wifi plan or None.
\<close>

type_synonym plan_bundle = "plan option \<times> plan option"

record person =
  location :: "int \<times> int"
  populated :: bool
  income :: real
  current_bundle :: plan_bundle
  percent_spent :: "real option"

text \<open>
  \<^verbatim>\<open>decide_expenditure\<close>: the percentage of income a bundle costs, None when
  disconnected; the division raises when the income is 0.
\<close>

definition decide_expenditure :: "plan_bundle \<Rightarrow> real \<Rightarrow> py_error + real option" where
  "decide_expenditure b inc =
     (case b of
        (None, None) \<Rightarrow> Inr None
      | (None, Some w) \<Rightarrow>
          if inc = 0 then Inl ZeroDivisionError else Inr (Some (price w / inc * 100))
      | (Some m, None) \<Rightarrow>
          if inc = 0 then Inl ZeroDivisionError else Inr (Some (price m / inc * 100))
      | (Some m, Some w) \<Rightarrow>
          if inc = 0 then Inl ZeroDivisionError
          else Inr (Some ((price m + price w) / inc * 100)))"

text \<open>
  \<^verbatim>\<open>all_agents_updates\<close>, the test that sends a connected household back to the
  decision engine:
  \<^verbatim>\<open>percent_spent_on_bundle == None or percent_spent_on_bundle >= IncomeBudget * 100\<close>
\<close>

definition over_budget :: "real option \<Rightarrow> real \<Rightarrow> bool" where
  "over_budget percent IncomeBudget =
     (case percent of None \<Rightarrow> True | Some p \<Rightarrow> p \<ge> IncomeBudget * 100)"

text \<open>
  An entry of the bundle evaluation list is \<^verbatim>\<open>(price, value, minimum_quality_mobile,
  minimum_quality_wifi)\<close>; a quality flag is True, False, None (the leg is absent) or the
  string \<^verbatim>\<open>"dummy"\<close> of the placeholder \<^verbatim>\<open>(1000000000, 0, "dummy", "dummy")\<close>.
\<close>

datatype quality = Q bool | QNone | Dummy

record evaluation =
  ev_price :: real
  ev_value :: real
  ev_mqm :: quality
  ev_mqw :: quality

definition dummy_bundle :: evaluation where
  "dummy_bundle = \<lparr>ev_price = 1000000000, ev_value = 0, ev_mqm = Dummy, ev_mqw = Dummy\<rparr>"

text \<open>
  The candidates handed to the decision tree are either complete bundles (Python
  tuples) or single plans (Python lists); \<^verbatim>\<open>isinstance(bundles[0], tuple)\<close> tells them
  apart.
\<close>

datatype candidates = Complete "(plan \<times> plan) list" | Plans "plan list"

fun no_candidates :: "candidates \<Rightarrow> bool" where
  "no_candidates (Complete bs) = (bs = [])"
| "no_candidates (Plans ps) = (ps = [])"

text \<open>The running maximum \<^verbatim>\<open>if x > max: max = x\<close>, started at 0.\<close>

definition running_max :: "real list \<Rightarrow> real" where
  "running_max xs = fold (\<lambda>x m. if x > m then x else m) xs 0"

text \<open>
  \<^verbatim>\<open>create_bundle_eval_list\<close>, called on a non-empty list only. The value of a
  candidate divides its capacities by the maxima of the list, which raises when a maximum
  is still 0.
\<close>

definition eval_complete :: "real \<Rightarrow> real \<Rightarrow> plan \<times> plan \<Rightarrow> evaluation" where
  "eval_complete max_GB max_Mbps b =
     \<lparr>ev_price = price (fst b) + price (snd b),
      ev_value = ((capacity (fst b) / max_GB) + (capacity (snd b) / max_Mbps)) / 2,
      ev_mqm = Q (capacity (fst b) > 61),
      ev_mqw = Q (capacity (snd b) > 25)\<rparr>"

definition eval_plan :: "real \<Rightarrow> plan \<Rightarrow> evaluation" where
  "eval_plan max_value p =
     \<lparr>ev_price = price p,
      ev_value = capacity p / max_value,
      ev_mqm = (if service p = Svc ''mobile'' then Q (capacity p > 61) else QNone),
      ev_mqw = (if service p = Svc ''mobile'' then QNone
                else if service p = Svc ''wifi'' then Q (capacity p > 25) else QNone)\<rparr>"

fun create_bundle_eval_list :: "candidates \<Rightarrow> py_error + evaluation list" where
  "create_bundle_eval_list (Complete bundles) =
     (let max_GB = running_max (map (\<lambda>b. capacity (fst b)) bundles);
          max_Mbps = running_max (map (\<lambda>b. capacity (snd b)) bundles)
      in if bundles = [] then Inl IndexError
         else if max_GB = 0 \<or> max_Mbps = 0 then Inl ZeroDivisionError
         else Inr (map (eval_complete max_GB max_Mbps) bundles))"
| "create_bundle_eval_list (Plans plans) =
     (let max_value = running_max (map capacity plans)
      in if plans = [] then Inl IndexError
         else if max_value = 0 then Inl ZeroDivisionError
         else Inr (map (eval_plan max_value) plans))"

text \<open>
  \<^verbatim>\<open>new_is_a_cheaper_minimum_quality\<close>. The function reseeds the generator once on
  entry and draws at most one number; \<open>r\<close> is that number.
\<close>

definition pick_cheaper :: "evaluation \<Rightarrow> evaluation \<Rightarrow> bool" where
  "pick_cheaper new_bundle current_best = (ev_price new_bundle \<le> ev_price current_best)"

definition pick_better_value :: "evaluation \<Rightarrow> evaluation \<Rightarrow> bool" where
  "pick_better_value new_bundle current_best = (ev_value new_bundle \<ge> ev_value current_best)"

definition new_is_a_cheaper_minimum_quality ::
  "evaluation \<Rightarrow> evaluation \<Rightarrow> real \<Rightarrow> real \<Rightarrow> bool" where
  "new_is_a_cheaper_minimum_quality new_bundle current_best PrSacrificeWifi r =
     (let new_mqm = ev_mqm new_bundle; new_mqw = ev_mqw new_bundle;
          current_mqm = ev_mqm current_best; current_mqw = ev_mqw current_best;
          new = (new_mqm, new_mqw); current = (current_mqm, current_mqw)
      in
      if new_mqm = Dummy then False
      else if current_mqm = Dummy then True
      else if new_mqm \<noteq> QNone \<and> new_mqw \<noteq> QNone
              \<and> current_mqm \<noteq> QNone \<and> current_mqw \<noteq> QNone then
        (if new = (Q True, Q True) then
           (if current = (Q True, Q True) then pick_cheaper new_bundle current_best
            else True)
         else if new = (Q True, Q False) then
           (if current = (Q True, Q True) then False
            else if current = (Q True, Q False) then pick_cheaper new_bundle current_best
            else if current = (Q False, Q True) then r < PrSacrificeWifi
            else True)
         else if new = (Q False, Q True) then
           (if current = (Q False, Q False) then True
            else if current = (Q False, Q True) then pick_cheaper new_bundle current_best
            else if current = (Q True, Q False) then r < PrSacrificeWifi
            else False)
         else
           (if current = (Q False, Q False) then pick_better_value new_bundle current_best
            else False))
      else if new_mqm \<noteq> QNone \<and> new_mqw \<noteq> QNone then True
      else if current_mqm \<noteq> QNone \<and> current_mqw \<noteq> QNone then False
      else if new_mqm = QNone then
        (if current_mqm \<noteq> QNone then (if r < PrSacrificeWifi then False else True)
         else if new_mqw = Q True then
           (if current_mqw = Q True then pick_cheaper new_bundle current_best else True)
         else
           (if current_mqw = Q True then False
            else pick_better_value new_bundle current_best))
      else
        (if current_mqw \<noteq> QNone then r < PrSacrificeWifi
         else if new_mqm = Q True then
           (if current_mqm = Q True then pick_cheaper new_bundle current_best else True)
         else
           (if current_mqm = Q True then False
            else pick_better_value new_bundle current_best)))"

text \<open>
  The random source: every draw of the program is preceded by
  \<^verbatim>\<open>random.seed(Seed + add_to_seed); add_to_seed += 23\<close>, so a draw is a function
  \<open>rnd\<close> of the seed value; the global counter \<^verbatim>\<open>add_to_seed\<close> is passed along.
\<close>

record tree_state =
  current_best :: evaluation
  current_best_index :: "nat option"
  add_to_seed :: int

text \<open>
  One iteration of the loop of \<^verbatim>\<open>decision_tree\<close>, for the candidate at position
  \<open>new_bundle\<close> with evaluation \<open>new\<close>. \<^verbatim>\<open>current_best_index = -1\<close> is None. The income
  is not 0 here (the loop checks it before).
\<close>

definition accept :: "evaluation \<Rightarrow> nat \<Rightarrow> tree_state \<Rightarrow> tree_state" where
  "accept new new_bundle st =
     st\<lparr>current_best := new, current_best_index := Some new_bundle\<rparr>"

definition tree_step ::
  "(int \<Rightarrow> real) \<Rightarrow> real \<Rightarrow> real \<Rightarrow> real \<Rightarrow> real \<Rightarrow> int \<Rightarrow> evaluation \<Rightarrow> nat
     \<Rightarrow> tree_state \<Rightarrow> tree_state" where
  "tree_step rnd inc IncomeBudget PrSacrificeWifi PrPickBetterValue Seed new new_bundle st =
     (let current_best_cost = ev_price (current_best st);
          current_best_value = ev_value (current_best st);
          new_cost = ev_price new;
          new_value = ev_value new
      in
      if new_cost / inc < IncomeBudget then
        (if current_best_cost / inc \<ge> 5/100 then
           (if new_cost < current_best_cost then accept new new_bundle st else st)
         else if new_cost / inc < 5/100 then
           (if new_cost / inc \<le> 2/100 \<and> new_value > current_best_value then
              (let r = rnd (Seed + add_to_seed st);
                   st1 = st\<lparr>add_to_seed := add_to_seed st + 23\<rparr>
               in if r < PrPickBetterValue then accept new new_bundle st1
                  else
                    (let r2 = rnd (Seed + add_to_seed st1);
                         st2 = st1\<lparr>add_to_seed := add_to_seed st1 + 23\<rparr>
                     in if new_is_a_cheaper_minimum_quality new (current_best st2)
                             PrSacrificeWifi r2
                        then accept new new_bundle st2 else st2))
            else
              (let r2 = rnd (Seed + add_to_seed st);
                   st2 = st\<lparr>add_to_seed := add_to_seed st + 23\<rparr>
               in if new_is_a_cheaper_minimum_quality new (current_best st2)
                       PrSacrificeWifi r2
                  then accept new new_bundle st2 else st2))
         else st)
      else st)"

fun tree_loop ::
  "(int \<Rightarrow> real) \<Rightarrow> real \<Rightarrow> real \<Rightarrow> real \<Rightarrow> real \<Rightarrow> int \<Rightarrow> evaluation list \<Rightarrow> nat
     \<Rightarrow> tree_state \<Rightarrow> py_error + tree_state" where
  "tree_loop rnd inc IncomeBudget PrS PrP Seed [] new_bundle st = Inr st"
| "tree_loop rnd inc IncomeBudget PrS PrP Seed (new # rest) new_bundle st =
     (if inc = 0 then Inl ZeroDivisionError
      else tree_loop rnd inc IncomeBudget PrS PrP Seed rest (Suc new_bundle)
             (tree_step rnd inc IncomeBudget PrS PrP Seed new new_bundle st))"

text \<open>
  The baseline \<^verbatim>\<open>current_best\<close> of \<^verbatim>\<open>decision_tree\<close>: the placeholder on the initial
  call, for a disconnected household, for complete candidates against a partial bundle
  and for single plans of the leg the household lacks; otherwise the evaluation of the
  household's bundle on its own.
\<close>

fun first_service :: "candidates \<Rightarrow> svc option" where
  "first_service (Complete bs) = None"
| "first_service (Plans ps) = (case ps of [] \<Rightarrow> None | p # _ \<Rightarrow> Some (service p))"

fun is_tuple_list :: "candidates \<Rightarrow> bool" where
  "is_tuple_list (Complete bs) = True"
| "is_tuple_list (Plans ps) = False"

definition initial_current_best ::
  "person \<Rightarrow> candidates \<Rightarrow> bool \<Rightarrow> py_error + evaluation" where
  "initial_current_best p bundles initial_call =
     (let b = current_bundle p in
      if initial_call \<or> b = (None, None) then Inr dummy_bundle
      else if is_tuple_list bundles \<and> (fst b = None \<or> snd b = None) then Inr dummy_bundle
      else if (fst b = None \<and> first_service bundles = Some (Svc ''mobile''))
              \<or> (snd b = None \<and> first_service bundles = Some (Svc ''wifi''))
           then Inr dummy_bundle
      else
        (case b of
           (None, Some w) \<Rightarrow> map_sum id hd (create_bundle_eval_list (Plans [w]))
         | (Some m, None) \<Rightarrow> map_sum id hd (create_bundle_eval_list (Plans [m]))
         | (Some m, Some w) \<Rightarrow> map_sum id hd (create_bundle_eval_list (Complete [(m, w)]))
         | (None, None) \<Rightarrow> Inr dummy_bundle))"

text \<open>
  \<^verbatim>\<open>decision_tree\<close> returns None, the string \<^verbatim>\<open>"no change"\<close> or the index of the chosen
  candidate. Its first test after the loop, \<^verbatim>\<open>current_best[0] == 'dummy'\<close>, compares a
  price with a string and never holds, so the placeholder goes through the budget test
  with its price of 1000000000 like any other baseline.
\<close>

datatype decision = NoOption | NoChange | Chosen nat

definition decision_tree ::
  "(int \<Rightarrow> real) \<Rightarrow> person \<Rightarrow> candidates \<Rightarrow> real \<Rightarrow> real \<Rightarrow> real \<Rightarrow> int \<Rightarrow> bool \<Rightarrow> int
     \<Rightarrow> py_error + (decision \<times> int)" where
  "decision_tree rnd p bundles IncomeBudget PrSacrificeWifi PrPickBetterValue Seed
       initial_call seed_counter =
     (if no_candidates bundles then Inr (NoOption, seed_counter)
      else
        case create_bundle_eval_list bundles of
          Inl e \<Rightarrow> Inl e
        | Inr bundle_evaluation_list \<Rightarrow>
        (case initial_current_best p bundles initial_call of
          Inl e \<Rightarrow> Inl e
        | Inr current \<Rightarrow>
        (case tree_loop rnd (income p) IncomeBudget PrSacrificeWifi PrPickBetterValue Seed
                bundle_evaluation_list 0
                \<lparr>current_best = current, current_best_index = None,
                 add_to_seed = seed_counter\<rparr> of
          Inl e \<Rightarrow> Inl e
        | Inr st \<Rightarrow>
           (case current_best_index st of
              None \<Rightarrow>
                if ev_price (current_best st) / income p > IncomeBudget
                then Inr (NoOption, add_to_seed st)
                else Inr (NoChange, add_to_seed st)
            | Some i \<Rightarrow> Inr (Chosen i, add_to_seed st)))))"

text \<open>
  \<^verbatim>\<open>decide_bundle\<close>: complete bundles first, then mobile plans, then wifi plans; the
  first stage with a decision other than None wins.
\<close>

definition decide_bundle ::
  "(int \<Rightarrow> real) \<Rightarrow> person \<Rightarrow> (plan \<times> plan) list \<Rightarrow> plan list \<Rightarrow> plan list
     \<Rightarrow> real \<Rightarrow> real \<Rightarrow> real \<Rightarrow> int \<Rightarrow> bool \<Rightarrow> int \<Rightarrow> py_error + (plan_bundle \<times> int)" where
  "decide_bundle rnd p complete_bundles mobile_plans wifi_plans PrSacrificeWifi
       PrPickBetterValue IncomeBudget Seed initial_call seed_counter =
     (case decision_tree rnd p (Complete complete_bundles) IncomeBudget PrSacrificeWifi
             PrPickBetterValue Seed initial_call seed_counter of
        Inl e \<Rightarrow> Inl e
      | Inr (NoChange, c1) \<Rightarrow> Inr (current_bundle p, c1)
      | Inr (Chosen i, c1) \<Rightarrow>
          Inr ((Some (fst (complete_bundles ! i)), Some (snd (complete_bundles ! i))), c1)
      | Inr (NoOption, c1) \<Rightarrow>
     (case decision_tree rnd p (Plans mobile_plans) IncomeBudget PrSacrificeWifi
             PrPickBetterValue Seed initial_call c1 of
        Inl e \<Rightarrow> Inl e
      | Inr (NoChange, c2) \<Rightarrow> Inr (current_bundle p, c2)
      | Inr (Chosen i, c2) \<Rightarrow> Inr ((Some (mobile_plans ! i), None), c2)
      | Inr (NoOption, c2) \<Rightarrow>
     (case decision_tree rnd p (Plans wifi_plans) IncomeBudget PrSacrificeWifi
             PrPickBetterValue Seed initial_call c2 of
        Inl e \<Rightarrow> Inl e
      | Inr (NoChange, c3) \<Rightarrow> Inr (current_bundle p, c3)
      | Inr (Chosen i, c3) \<Rightarrow> Inr ((None, Some (wifi_plans ! i)), c3)
      | Inr (NoOption, c3) \<Rightarrow> Inr ((None, None), c3))))"

text \<open>The price and the number of the candidates, and the price of a bundle.\<close>

fun candidate_price :: "candidates \<Rightarrow> nat \<Rightarrow> real" where
  "candidate_price (Complete bs) i = price (fst (bs ! i)) + price (snd (bs ! i))"
| "candidate_price (Plans ps) i = price (ps ! i)"

fun candidate_count :: "candidates \<Rightarrow> nat" where
  "candidate_count (Complete bs) = length bs"
| "candidate_count (Plans ps) = length ps"

fun bundle_price :: "plan_bundle \<Rightarrow> real" where
  "bundle_price (None, None) = 0"
| "bundle_price (None, Some w) = price w"
| "bundle_price (Some m, None) = price m"
| "bundle_price (Some m, Some w) = price m + price w"

section \<open>Market quadrant index\<close>

text \<open>
  \<^verbatim>\<open>define_ISPs_per_location\<close> starts from \<^verbatim>\<open>[[], [], [], []]\<close> and appends the
  index of every ISP to the list of each quadrant of its wifi locations and then of its
  mobile locations. \<^verbatim>\<open>operator_locations[quad]\<close> raises an IndexError for a quadrant
  past the end, and iterating over a location list that is None raises a TypeError.
\<close>

fun append_locations :: "nat \<Rightarrow> nat list \<Rightarrow> nat list list \<Rightarrow> py_error + nat list list" where
  "append_locations i [] operator_locations = Inr operator_locations"
| "append_locations i (quad # quads) operator_locations =
     (if quad < length operator_locations
      then append_locations i quads
             (operator_locations[quad := operator_locations ! quad @ [i]])
      else Inl IndexError)"

definition append_offered ::
  "nat \<Rightarrow> bool \<Rightarrow> nat list option \<Rightarrow> nat list list \<Rightarrow> py_error + nat list list" where
  "append_offered i offered locs operator_locations =
     (if offered then
        (case locs of None \<Rightarrow> Inl TypeError
         | Some quads \<Rightarrow> append_locations i quads operator_locations)
      else Inr operator_locations)"

fun collect_locations :: "nat \<Rightarrow> isp list \<Rightarrow> nat list list \<Rightarrow> py_error + nat list list" where
  "collect_locations i [] operator_locations = Inr operator_locations"
| "collect_locations i (x # ISPs) operator_locations =
     (case append_offered i (wifi_offered x) (wifi_locations x) operator_locations of
        Inl e \<Rightarrow> Inl e
      | Inr ols1 \<Rightarrow>
     (case append_offered i (mobile_offered x) (mobile_locations x) ols1 of
        Inl e \<Rightarrow> Inl e
      | Inr ols2 \<Rightarrow> collect_locations (Suc i) ISPs ols2))"

text \<open>
  The duplicate removal, as written:
  \<^verbatim>\<open>i = 0
  while i < len(quad):
      j = i + 1
      while j < len(quad):
          if quad[i] == quad[j]: del quad[j]
          else: j += 1
      i += 1\<close>
  \<open>remove_duplicates_of\<close> is the inner loop from position \<open>j\<close>, \<open>remove_duplicates\<close> the
  outer loop from position \<open>i\<close>.
\<close>

function remove_duplicates_of :: "nat \<Rightarrow> nat \<Rightarrow> nat list \<Rightarrow> nat list" where
  "remove_duplicates_of i j quad =
     (if j < length quad then
        (if quad ! i = quad ! j
         then remove_duplicates_of i j (take j quad @ drop (Suc j) quad)
         else remove_duplicates_of i (Suc j) quad)
      else quad)"
  by pat_completeness auto
termination
  by (relation "measure (\<lambda>(i, j, quad). length quad - j)") auto

declare remove_duplicates_of.simps [simp del]

function remove_duplicates :: "nat \<Rightarrow> nat list \<Rightarrow> nat list" where
  "remove_duplicates i quad =
     (if i < length quad
      then remove_duplicates (Suc i) (remove_duplicates_of i (Suc i) quad)
      else quad)"
  by pat_completeness auto
termination
proof (relation "measure (\<lambda>(i, quad). length quad - i)")
  show "wf (measure (\<lambda>(i, quad). length quad - i))" by simp
next
  fix i :: nat and quad :: "nat list"
  assume lt: "i < length quad"
  have len: "length (remove_duplicates_of a b xs) \<le> length xs" for a b xs
  proof (induction a b xs rule: remove_duplicates_of.induct)
    case (1 a b xs)
    show ?case
    proof (cases "b < length xs")
      case True
      note b = this
      show ?thesis
      proof (cases "xs ! a = xs ! b")
        case True
        with b "1.IH"(1) have "length (remove_duplicates_of a b (take b xs @ drop (Suc b) xs))
            \<le> length (take b xs @ drop (Suc b) xs)" by simp
        also from b have "\<dots> \<le> length xs" by simp
        finally show ?thesis using b True by (subst remove_duplicates_of.simps) simp
      next
        case False
        with b "1.IH"(2) show ?thesis by (subst remove_duplicates_of.simps) simp
      qed
    next
      case False
      then show ?thesis by (subst remove_duplicates_of.simps) simp
    qed
  qed
  from lt len [of i "Suc i" quad]
  show "((Suc i, remove_duplicates_of i (Suc i) quad), (i, quad))
      \<in> measure (\<lambda>(i, quad). length quad - i)" by simp
qed

declare remove_duplicates.simps [simp del]

definition define_ISPs_per_location :: "isp list \<Rightarrow> py_error + nat list list" where
  "define_ISPs_per_location ISPs =
     map_sum id (map (remove_duplicates 0)) (collect_locations 0 ISPs [[], [], [], []])"

text \<open>
  \<^verbatim>\<open>check_for_bankruptcy\<close>: for every firm whose moneypool is at most 0, each quadrant
  list loses the first entry equal to the firm's index (the scan stops at the first
  match). No other statement of the program assigns to \<^verbatim>\<open>operator_locations\<close> or
  mutates one of its lists: \<^verbatim>\<open>pick_operators\<close> only rebinds its local \<^verbatim>\<open>choices\<close> to new
  slices.
\<close>

fun remove_operator :: "nat \<Rightarrow> nat list \<Rightarrow> nat list" where
  "remove_operator firm [] = []"
| "remove_operator firm (operator # rest) =
     (if operator = firm then rest else operator # remove_operator firm rest)"

definition bankruptcy_step :: "isp list \<Rightarrow> nat \<Rightarrow> nat list list \<Rightarrow> nat list list" where
  "bankruptcy_step ISPs firm operator_locations =
     (if moneypool (ISPs ! firm) \<le> 0
      then map (remove_operator firm) operator_locations
      else operator_locations)"

definition check_for_bankruptcy :: "isp list \<Rightarrow> nat list list \<Rightarrow> nat list list" where
  "check_for_bankruptcy ISPs operator_locations =
     fold (bankruptcy_step ISPs) [0..<length ISPs] operator_locations"

text \<open>
  The quadrant index over a run: \<^verbatim>\<open>simulate_market_dynamics\<close> calls
  \<^verbatim>\<open>check_for_bankruptcy\<close> once a month, on the firms as the month's profit update left
  them; \<open>months\<close> lists these firm states in order.
\<close>

definition bankruptcy_checks :: "isp list list \<Rightarrow> nat list list \<Rightarrow> nat list list" where
  "bankruptcy_checks months operator_locations =
     fold check_for_bankruptcy months operator_locations"

definition all_distinct :: "nat list list \<Rightarrow> bool" where
  "all_distinct operator_locations = list_all distinct operator_locations"

section \<open>Consideration sampling: the probability vector\<close>

text \<open>
  \<^verbatim>\<open>round_up_to_nearest_001\<close> rounds to a multiple of 0.001 with a floor division.
\<close>

definition round_up_to_nearest_001 :: "real \<Rightarrow> real" where
  "round_up_to_nearest_001 number =
     (if number > 0 then of_int \<lfloor>(number + 5/10000) / (1/1000)\<rfloor> * (1/1000)
      else of_int \<lfloor>(number - 5/10000) / (1/1000)\<rfloor> * (1/1000))"

text \<open>
  \<^verbatim>\<open>pick_operators\<close> divides each marketing budget by the industry total, which raises
  when the total is 0. It then calls \<^verbatim>\<open>round_up_to_nearest_001(pr)\<close> as a statement and
  appends the unrounded \<^verbatim>\<open>pr\<close>: the rounded value is not used.
\<close>

definition effective_marketing :: "real list \<Rightarrow> py_error + real list" where
  "effective_marketing marketing_budgets =
     (let industry_total = sum_list marketing_budgets in
      if marketing_budgets \<noteq> [] \<and> industry_total = 0 then Inl ZeroDivisionError
      else Inr (map (\<lambda>budget.
                  let pr = budget / industry_total;
                      discarded = round_up_to_nearest_001 pr
                  in pr) marketing_budgets))"

text \<open>
  \<^verbatim>\<open>ensure_adds_to_1\<close>, the branch for a total over 1:
  \<^verbatim>\<open>amount_over = total - 1
  while amount_over > 0:
      for p in range(len(probs_array)):
          if probs_array[p] > 0.001:
              if amount_over > 0.001:
                  probs_array[p] -= 0.001
                  amount_over - 0.001
              else:
                  probs_array[p] -= amount_over
                  return probs_array\<close>
  The statement \<^verbatim>\<open>amount_over - 0.001\<close> computes a difference and drops it, so
  \<^verbatim>\<open>amount_over\<close> never changes. \<open>shave_pass\<close> is one run of the \<^verbatim>\<open>for\<close> loop, which
  either returns from the function or falls through with the array as it has become;
  \<open>shave_loop\<close> is the \<^verbatim>\<open>while\<close> loop, with None for a loop that never ends and
  \<open>Some None\<close> for leaving the loop and the function without a return value.
\<close>

datatype 'a loop_exit = Returned 'a | Fell_through 'a

fun push :: "real \<Rightarrow> real list loop_exit \<Rightarrow> real list loop_exit" where
  "push p (Returned ps) = Returned (p # ps)"
| "push p (Fell_through ps) = Fell_through (p # ps)"

fun shave_pass :: "real list \<Rightarrow> real \<Rightarrow> real list loop_exit" where
  "shave_pass [] amount_over = Fell_through []"
| "shave_pass (p # ps) amount_over =
     (if p > 1/1000 then
        (if amount_over > 1/1000 then push (p - 1/1000) (shave_pass ps amount_over)
         else Returned ((p - amount_over) # ps))
      else push p (shave_pass ps amount_over))"

partial_function (option) shave_loop :: "real list \<Rightarrow> real \<Rightarrow> real list option option" where
  "shave_loop probs_array amount_over =
     (if amount_over > 0 then
        (case shave_pass probs_array amount_over of
           Returned r \<Rightarrow> Some (Some r)
         | Fell_through probs' \<Rightarrow> shave_loop probs' amount_over)
      else Some None)"

text \<open>
  \<^verbatim>\<open>ensure_adds_to_1\<close>: a total of exactly 1 returns the array as it is; a total under 1
  reseeds, draws \<^verbatim>\<open>random.randint(0, len(probs_array) - 1)\<close> (a ValueError on an empty
  array) and adds the missing amount there; a total over 1 enters the loop above.
  \<open>rnd_int s n\<close> stands for the index drawn below \<open>n\<close> after seeding with \<open>s\<close>.
\<close>

definition ensure_adds_to_1 ::
  "(int \<Rightarrow> nat \<Rightarrow> nat) \<Rightarrow> real list \<Rightarrow> int \<Rightarrow> int
     \<Rightarrow> (py_error + real list option \<times> int) option" where
  "ensure_adds_to_1 rnd_int probs_array Seed seed_counter =
     (let total = sum_list probs_array in
      if total = 1 then Some (Inr (Some probs_array, seed_counter))
      else if total < 1 then
        (if probs_array = [] then Some (Inl ValueError)
         else
           let add_to_me = rnd_int (Seed + seed_counter) (length probs_array)
                             mod length probs_array;
               amount_under = 1 - total
           in Some (Inr (Some (probs_array[add_to_me := probs_array ! add_to_me + amount_under]),
                         seed_counter + 23)))
      else map_option (\<lambda>r. Inr (r, seed_counter)) (shave_loop probs_array (total - 1)))"

section \<open>Consideration sampling: the draws\<close>

text \<open>
  The state of the three loops of \<^verbatim>\<open>pick_operators\<close>: the candidates left
  (\<^verbatim>\<open>choices\<close>), their weights (\<^verbatim>\<open>pr_effective_marketing\<close>), the two result lists and
  the global \<^verbatim>\<open>add_to_seed\<close>.
\<close>

record pick_state =
  ps_choices :: "nat list"
  ps_weights :: "real list"
  ps_mobile :: "isp list"
  ps_wifi :: "isp list"
  ps_counter :: int

text \<open>
  \<^verbatim>\<open>ISPs[index][2] and quad in ISPs[index][3]\<close>: the location list is looked at only
  for a service that is offered, and a list that is None raises a TypeError.
\<close>

definition in_locations :: "bool \<Rightarrow> nat list option \<Rightarrow> nat \<Rightarrow> py_error + bool" where
  "in_locations offered locs quad =
     (if offered then
        (case locs of None \<Rightarrow> Inl TypeError | Some quads \<Rightarrow> Inr (quad \<in> set quads))
      else Inr False)"

text \<open>
  \<^verbatim>\<open>random.choices(range(len(choices)), weights=pr_effective_marketing, k=1)[0]\<close>.
  The library raises a ValueError when the number of weights is not the size of the
  population, an IndexError when both are empty (it reads the last cumulative weight),
  and a ValueError when the total weight is not positive; otherwise it returns a position
  of the population. \<open>rnd_choices s weights\<close> stands for that position after seeding with
  \<open>s\<close>.
\<close>

definition random_choices ::
  "(int \<Rightarrow> real list \<Rightarrow> nat) \<Rightarrow> int \<Rightarrow> nat \<Rightarrow> real list \<Rightarrow> py_error + nat" where
  "random_choices rnd_choices s n weights =
     (if length weights \<noteq> n then Inl ValueError
      else if weights = [] then Inl IndexError
      else if sum_list weights \<le> 0 then Inl ValueError
      else Inr (rnd_choices s weights mod n))"

text \<open>
  \<^verbatim>\<open>choices = choices[:choice] + choices[choice+1:]\<close>, the same for the weights, and
  \<^verbatim>\<open>pr_sum = sum(pr_effective_marketing)
  pr_effective_marketing = [p / pr_sum for p in pr_effective_marketing]\<close>
  where the division raises for a sum of 0 unless no weight is left.
\<close>

definition slice_out :: "nat \<Rightarrow> 'a list \<Rightarrow> 'a list" where
  "slice_out choice xs = take choice xs @ drop (Suc choice) xs"

definition renormalise :: "real list \<Rightarrow> py_error + real list" where
  "renormalise pr_effective_marketing =
     (let pr_sum = sum_list pr_effective_marketing in
      if pr_effective_marketing \<noteq> [] \<and> pr_sum = 0 then Inl ZeroDivisionError
      else Inr (map (\<lambda>p. p / pr_sum) pr_effective_marketing))"

text \<open>
  The start of every loop body: reseed, draw a position, and look up the firm
  (\<^verbatim>\<open>index = choices[choice]\<close>, \<^verbatim>\<open>ISPs[index]\<close>). The end of every loop body: drop the
  position from candidates and weights and renormalise; \<^verbatim>\<open>add_to_seed\<close> has gone up by
  23.
\<close>

definition draw_operator ::
  "(int \<Rightarrow> real list \<Rightarrow> nat) \<Rightarrow> int \<Rightarrow> isp list \<Rightarrow> pick_state \<Rightarrow> py_error + nat \<times> isp" where
  "draw_operator rnd_choices Seed ISPs st =
     (case random_choices rnd_choices (Seed + ps_counter st) (length (ps_choices st))
             (ps_weights st) of
        Inl e \<Rightarrow> Inl e
      | Inr choice \<Rightarrow>
          let index = ps_choices st ! choice in
          if index < length ISPs then Inr (choice, ISPs ! index) else Inl IndexError)"

definition discard_choice :: "nat \<Rightarrow> pick_state \<Rightarrow> py_error + pick_state" where
  "discard_choice choice st =
     (case renormalise (slice_out choice (ps_weights st)) of
        Inl e \<Rightarrow> Inl e
      | Inr pr \<Rightarrow> Inr (st\<lparr>ps_choices := slice_out choice (ps_choices st), ps_weights := pr,
                          ps_counter := ps_counter st + 23\<rparr>))"

text \<open>
  The main loop, \<^verbatim>\<open>while TimeBudget > 0\<close>: a firm with mobile coverage of the quadrant
  goes to the mobile list, and to the wifi list too when it has wifi coverage; a firm
  with wifi coverage only goes to the wifi list; \<^verbatim>\<open>TimeBudget\<close> goes down only when the
  firm went to a list. The candidate is dropped in every case.
\<close>

definition main_step ::
  "(int \<Rightarrow> real list \<Rightarrow> nat) \<Rightarrow> int \<Rightarrow> isp list \<Rightarrow> nat \<Rightarrow> int \<Rightarrow> pick_state
     \<Rightarrow> py_error + int \<times> pick_state" where
  "main_step rnd_choices Seed ISPs quad TimeBudget st =
     (case draw_operator rnd_choices Seed ISPs st of
        Inl e \<Rightarrow> Inl e
      | Inr (choice, operator) \<Rightarrow>
     (case in_locations (mobile_offered operator) (mobile_locations operator) quad of
        Inl e \<Rightarrow> Inl e
      | Inr mobile_here \<Rightarrow>
     (case in_locations (wifi_offered operator) (wifi_locations operator) quad of
        Inl e \<Rightarrow> Inl e
      | Inr wifi_here \<Rightarrow>
     (case discard_choice choice st of
        Inl e \<Rightarrow> Inl e
      | Inr st' \<Rightarrow>
          Inr (if mobile_here \<or> wifi_here then TimeBudget - 1 else TimeBudget,
               st'\<lparr>ps_mobile := (if mobile_here then ps_mobile st @ [operator]
                                   else ps_mobile st),
                    ps_wifi := (if wifi_here then ps_wifi st @ [operator]
                                else ps_wifi st)\<rparr>)))))"

function main_loop ::
  "(int \<Rightarrow> real list \<Rightarrow> nat) \<Rightarrow> int \<Rightarrow> isp list \<Rightarrow> nat \<Rightarrow> int \<Rightarrow> pick_state
     \<Rightarrow> py_error + pick_state" where
  "main_loop rnd_choices Seed ISPs quad TimeBudget st =
     (if TimeBudget > 0 then
        (case main_step rnd_choices Seed ISPs quad TimeBudget st of
           Inl e \<Rightarrow> Inl e
         | Inr (TimeBudget', st') \<Rightarrow> main_loop rnd_choices Seed ISPs quad TimeBudget' st')
      else Inr st)"
  by pat_completeness auto
termination
proof (relation "measure (\<lambda>(rnd_choices, Seed, ISPs, quad, TimeBudget, st).
                  length (ps_choices st))", goal_cases)
  case 1
  show ?case by simp
next
  case (2 rnd_choices Seed ISPs quad TimeBudget st b TimeBudget' st')
  from 2(2) 2(3) [symmetric]
  have "main_step rnd_choices Seed ISPs quad TimeBudget st = Inr (TimeBudget', st')" by simp
  then obtain choice operator st'' where
      d: "draw_operator rnd_choices Seed ISPs st = Inr (choice, operator)"
      and dc: "discard_choice choice st = Inr st''"
      and eq: "ps_choices st' = ps_choices st''"
    by (auto simp add: main_step_def split: sum.splits prod.splits)
  from d have r: "random_choices rnd_choices (Seed + ps_counter st) (length (ps_choices st))
                    (ps_weights st) = Inr choice"
    by (auto simp add: draw_operator_def Let_def split: sum.splits if_splits)
  then have "ps_weights st \<noteq> []" and "length (ps_weights st) = length (ps_choices st)"
    by (auto simp add: random_choices_def split: if_splits)
  then have pos: "0 < length (ps_choices st)" by (cases "ps_weights st") auto
  from r have "choice = rnd_choices (Seed + ps_counter st) (ps_weights st)
                          mod length (ps_choices st)"
    by (auto simp add: random_choices_def split: if_splits)
  with pos have lt: "choice < length (ps_choices st)" by simp
  from dc have "ps_choices st'' = slice_out choice (ps_choices st)"
    by (auto simp add: discard_choice_def split: sum.splits)
  with eq lt have "length (ps_choices st') < length (ps_choices st)"
    by (simp add: slice_out_def)
  then show ?case by simp
qed

declare main_loop.simps [simp del]

text \<open>
  The first balancing loop,
  \<^verbatim>\<open>while len(choices) > 0 and len(selected_mobile_operators) > len(selected_wifi_operators)\<close>.
\<close>

definition wifi_step ::
  "(int \<Rightarrow> real list \<Rightarrow> nat) \<Rightarrow> int \<Rightarrow> isp list \<Rightarrow> nat \<Rightarrow> pick_state \<Rightarrow> py_error + pick_state" where
  "wifi_step rnd_choices Seed ISPs quad st =
     (case draw_operator rnd_choices Seed ISPs st of
        Inl e \<Rightarrow> Inl e
      | Inr (choice, operator) \<Rightarrow>
     (case in_locations (wifi_offered operator) (wifi_locations operator) quad of
        Inl e \<Rightarrow> Inl e
      | Inr wifi_here \<Rightarrow>
     (case discard_choice choice st of
        Inl e \<Rightarrow> Inl e
      | Inr st' \<Rightarrow>
          Inr (st'\<lparr>ps_wifi := (if wifi_here then ps_wifi st @ [operator]
                                else ps_wifi st)\<rparr>))))"

function wifi_loop ::
  "(int \<Rightarrow> real list \<Rightarrow> nat) \<Rightarrow> int \<Rightarrow> isp list \<Rightarrow> nat \<Rightarrow> pick_state \<Rightarrow> py_error + pick_state" where
  "wifi_loop rnd_choices Seed ISPs quad st =
     (if length (ps_choices st) > 0 \<and> length (ps_mobile st) > length (ps_wifi st) then
        (case wifi_step rnd_choices Seed ISPs quad st of
           Inl e \<Rightarrow> Inl e
         | Inr st' \<Rightarrow> wifi_loop rnd_choices Seed ISPs quad st')
      else Inr st)"
  by pat_completeness auto
termination
proof (relation "measure (\<lambda>(rnd_choices, Seed, ISPs, quad, st). length (ps_choices st))",
    goal_cases)
  case 1
  show ?case by simp
next
  case (2 rnd_choices Seed ISPs quad st st')
  from 2(2) have "wifi_step rnd_choices Seed ISPs quad st = Inr st'" .
  then obtain choice operator st'' where
      d: "draw_operator rnd_choices Seed ISPs st = Inr (choice, operator)"
      and dc: "discard_choice choice st = Inr st''"
      and eq: "ps_choices st' = ps_choices st''"
    by (auto simp add: wifi_step_def split: sum.splits prod.splits)
  from d have r: "random_choices rnd_choices (Seed + ps_counter st) (length (ps_choices st))
                    (ps_weights st) = Inr choice"
    by (auto simp add: draw_operator_def Let_def split: sum.splits if_splits)
  then have "ps_weights st \<noteq> []" and "length (ps_weights st) = length (ps_choices st)"
    by (auto simp add: random_choices_def split: if_splits)
  then have pos: "0 < length (ps_choices st)" by (cases "ps_weights st") auto
  from r have "choice = rnd_choices (Seed + ps_counter st) (ps_weights st)
                          mod length (ps_choices st)"
    by (auto simp add: random_choices_def split: if_splits)
  with pos have lt: "choice < length (ps_choices st)" by simp
  from dc have "ps_choices st'' = slice_out choice (ps_choices st)"
    by (auto simp add: discard_choice_def split: sum.splits)
  with eq lt have "length (ps_choices st') < length (ps_choices st)"
    by (simp add: slice_out_def)
  then show ?case by simp
qed

declare wifi_loop.simps [simp del]

text \<open>
  The second balancing loop,
  \<^verbatim>\<open>while len(choices) > 0 and len(selected_mobile_operators) < len(selected_wifi_operators)\<close>.
\<close>

definition mobile_step ::
  "(int \<Rightarrow> real list \<Rightarrow> nat) \<Rightarrow> int \<Rightarrow> isp list \<Rightarrow> nat \<Rightarrow> pick_state \<Rightarrow> py_error + pick_state" where
  "mobile_step rnd_choices Seed ISPs quad st =
     (case draw_operator rnd_choices Seed ISPs st of
        Inl e \<Rightarrow> Inl e
      | Inr (choice, operator) \<Rightarrow>
     (case in_locations (mobile_offered operator) (mobile_locations operator) quad of
        Inl e \<Rightarrow> Inl e
      | Inr mobile_here \<Rightarrow>
     (case discard_choice choice st of
        Inl e \<Rightarrow> Inl e
      | Inr st' \<Rightarrow>
          Inr (st'\<lparr>ps_mobile := (if mobile_here then ps_mobile st @ [operator]
                                  else ps_mobile st)\<rparr>))))"

function mobile_loop ::
  "(int \<Rightarrow> real list \<Rightarrow> nat) \<Rightarrow> int \<Rightarrow> isp list \<Rightarrow> nat \<Rightarrow> pick_state \<Rightarrow> py_error + pick_state" where
  "mobile_loop rnd_choices Seed ISPs quad st =
     (if length (ps_choices st) > 0 \<and> length (ps_mobile st) < length (ps_wifi st) then
        (case mobile_step rnd_choices Seed ISPs quad st of
           Inl e \<Rightarrow> Inl e
         | Inr st' \<Rightarrow> mobile_loop rnd_choices Seed ISPs quad st')
      else Inr st)"
  by pat_completeness auto
termination
proof (relation "measure (\<lambda>(rnd_choices, Seed, ISPs, quad, st). length (ps_choices st))",
    goal_cases)
  case 1
  show ?case by simp
next
  case (2 rnd_choices Seed ISPs quad st st')
  from 2(2) have "mobile_step rnd_choices Seed ISPs quad st = Inr st'" .
  then obtain choice operator st'' where
      d: "draw_operator rnd_choices Seed ISPs st = Inr (choice, operator)"
      and dc: "discard_choice choice st = Inr st''"
      and eq: "ps_choices st' = ps_choices st''"
    by (auto simp add: mobile_step_def split: sum.splits prod.splits)
  from d have r: "random_choices rnd_choices (Seed + ps_counter st) (length (ps_choices st))
                    (ps_weights st) = Inr choice"
    by (auto simp add: draw_operator_def Let_def split: sum.splits if_splits)
  then have "ps_weights st \<noteq> []" and "length (ps_weights st) = length (ps_choices st)"
    by (auto simp add: random_choices_def split: if_splits)
  then have pos: "0 < length (ps_choices st)" by (cases "ps_weights st") auto
  from r have "choice = rnd_choices (Seed + ps_counter st) (ps_weights st)
                          mod length (ps_choices st)"
    by (auto simp add: random_choices_def split: if_splits)
  with pos have lt: "choice < length (ps_choices st)" by simp
  from dc have "ps_choices st'' = slice_out choice (ps_choices st)"
    by (auto simp add: discard_choice_def split: sum.splits)
  with eq lt have "length (ps_choices st') < length (ps_choices st)"
    by (simp add: slice_out_def)
  then show ?case by simp
qed

declare mobile_loop.simps [simp del]

text \<open>
  \<^verbatim>\<open>pick_operators\<close>. The result is None when \<^verbatim>\<open>ensure_adds_to_1\<close> never returns. When
  \<^verbatim>\<open>ensure_adds_to_1\<close> leaves its loop without a return value the weights are None: a
  first pass of the main loop then raises a TypeError on \<^verbatim>\<open>pr_effective_marketing[:choice]\<close>
  at the latest, and with no pass to make both lists are returned empty. The time budget
  is cut down to the number of candidates (\<^verbatim>\<open>#avoids infinite loop below\<close>).
\<close>

definition balance ::
  "(int \<Rightarrow> real list \<Rightarrow> nat) \<Rightarrow> int \<Rightarrow> isp list \<Rightarrow> nat \<Rightarrow> pick_state
     \<Rightarrow> py_error + isp list \<times> isp list \<times> int" where
  "balance rnd_choices Seed ISPs quad st =
     (case wifi_loop rnd_choices Seed ISPs quad st of
        Inl e \<Rightarrow> Inl e
      | Inr st1 \<Rightarrow>
     (case mobile_loop rnd_choices Seed ISPs quad st1 of
        Inl e \<Rightarrow> Inl e
      | Inr st2 \<Rightarrow> Inr (ps_mobile st2, ps_wifi st2, ps_counter st2)))"

definition pick_operators ::
  "(int \<Rightarrow> real list \<Rightarrow> nat) \<Rightarrow> (int \<Rightarrow> nat \<Rightarrow> nat) \<Rightarrow> isp list \<Rightarrow> nat \<Rightarrow> nat list list \<Rightarrow> int
     \<Rightarrow> real \<Rightarrow> int \<Rightarrow> int \<Rightarrow> (py_error + isp list \<times> isp list \<times> int) option" where
  "pick_operators rnd_choices rnd_int ISPs quad operator_locations TimeBudget MarketingBudget
       Seed seed_counter =
     (if quad \<ge> length operator_locations then Some (Inl IndexError)
      else
        let choices = operator_locations ! quad in
        if list_ex (\<lambda>choice. choice \<ge> length ISPs) choices then Some (Inl IndexError)
        else
          (case effective_marketing
                  (map (\<lambda>choice. marketing_budget MarketingBudget (ISPs ! choice)) choices) of
             Inl e \<Rightarrow> Some (Inl e)
           | Inr pr \<Rightarrow>
          (case ensure_adds_to_1 rnd_int pr Seed seed_counter of
             None \<Rightarrow> None
           | Some (Inl e) \<Rightarrow> Some (Inl e)
           | Some (Inr (returned, seed_counter')) \<Rightarrow>
               let TimeBudget' = (if TimeBudget > int (length choices)
                                  then int (length choices) else TimeBudget)
               in (case returned of
                     None \<Rightarrow> if TimeBudget' > 0 then Some (Inl TypeError)
                             else Some (Inr ([], [], seed_counter'))
                   | Some pr_effective_marketing \<Rightarrow>
                  (case main_loop rnd_choices Seed ISPs quad TimeBudget'
                          \<lparr>ps_choices = choices, ps_weights = pr_effective_marketing,
                           ps_mobile = [], ps_wifi = [], ps_counter = seed_counter'\<rparr> of
                     Inl e \<Rightarrow> Some (Inl e)
                   | Inr st \<Rightarrow> Some (balance rnd_choices Seed ISPs quad st))))))"

text \<open>
  What the loops rely on. A firm \<open>covers\<close> a quadrant with a service it offers whose
  location list has the quadrant; it is \<open>located\<close> when every service it offers has a
  location list; a candidate is in order when it is an index of \<^verbatim>\<open>ISPs\<close> and names a
  located firm that covers the quadrant with one of its services. The invariant of the
  loops: as many weights as candidates, every weight positive, every candidate in order.
\<close>

definition covers :: "bool \<Rightarrow> nat list option \<Rightarrow> nat \<Rightarrow> bool" where
  "covers offered locs quad =
     (offered \<and> (case locs of None \<Rightarrow> False | Some quads \<Rightarrow> quad \<in> set quads))"

definition located :: "isp \<Rightarrow> bool" where
  "located i = ((mobile_offered i \<longrightarrow> mobile_locations i \<noteq> None)
              \<and> (wifi_offered i \<longrightarrow> wifi_locations i \<noteq> None))"

definition candidate_ok :: "isp list \<Rightarrow> nat \<Rightarrow> nat \<Rightarrow> bool" where
  "candidate_ok ISPs quad index =
     (index < length ISPs \<and> located (ISPs ! index)
      \<and> (covers (mobile_offered (ISPs ! index)) (mobile_locations (ISPs ! index)) quad
         \<or> covers (wifi_offered (ISPs ! index)) (wifi_locations (ISPs ! index)) quad))"

definition sampling_invariant :: "isp list \<Rightarrow> nat \<Rightarrow> pick_state \<Rightarrow> bool" where
  "sampling_invariant ISPs quad st =
     (length (ps_weights st) = length (ps_choices st)
      \<and> list_all (\<lambda>w. 0 < w) (ps_weights st)
      \<and> list_all (candidate_ok ISPs quad) (ps_choices st))"

section \<open>Household reassessment\<close>

text \<open>
  The quadrant of a household, from its position \<^verbatim>\<open>person[0]\<close>:
  \<^verbatim>\<open>y = person[0][0]; x = person[0][1]\<close>, quadrants 0 and 1 for \<^verbatim>\<open>x < 50\<close>, 0 and 2 for
  \<^verbatim>\<open>y < 50\<close>.
\<close>

definition quadrant_of :: "person \<Rightarrow> nat" where
  "quadrant_of p =
     (let y = fst (location p); x = snd (location p)
      in if x < 50 then (if y < 50 then 0 else 1) else (if y < 50 then 2 else 3))"

definition plan_available_in_my_area :: "plan \<Rightarrow> nat \<Rightarrow> bool" where
  "plan_available_in_my_area pl quad =
     (if plan_isp pl = ''PLAN GONE'' then False
      else if service pl = Svc ''wifi'' then
        ((quad = 0 \<and> footprint pl = ''urban'')
         \<or> ((quad = 1 \<or> quad = 2) \<and> footprint pl = ''regional'')
         \<or> (quad \<noteq> 0 \<and> footprint pl = ''remote''))
      else (footprint pl = ''remote'' \<or> (footprint pl = ''regional'' \<and> quad \<noteq> 3)))"

text \<open>
  \<^verbatim>\<open>prep_bundles\<close>: the firms come from \<^verbatim>\<open>pick_operators\<close>; the mobile plans of the
  mobile firms and the wifi plans of the wifi firms that are available in the quadrant
  are collected in order, and every mobile plan is paired with every wifi plan. (The
  function also prints wifi plans of more than 101 Mbps in quadrants 1 and 2.)
\<close>

definition prep_bundles ::
  "(int \<Rightarrow> real list \<Rightarrow> nat) \<Rightarrow> (int \<Rightarrow> nat \<Rightarrow> nat) \<Rightarrow> person \<Rightarrow> isp list \<Rightarrow> int \<Rightarrow> real
     \<Rightarrow> nat list list \<Rightarrow> int \<Rightarrow> int
     \<Rightarrow> (py_error + ((plan \<times> plan) list \<times> plan list \<times> plan list) \<times> int) option" where
  "prep_bundles rnd_choices rnd_int p ISPs TimeBudget MarketingBudget operator_locations Seed
       seed_counter =
     (let quad = quadrant_of p in
      case pick_operators rnd_choices rnd_int ISPs quad operator_locations TimeBudget
             MarketingBudget Seed seed_counter of
        None \<Rightarrow> None
      | Some (Inl e) \<Rightarrow> Some (Inl e)
      | Some (Inr (mobile_operators, wifi_operators, seed_counter')) \<Rightarrow>
          let mobile_plans =
                concat (map (\<lambda>operator.
                          filter (\<lambda>pl. service pl = Svc ''mobile''
                                       \<and> plan_available_in_my_area pl quad)
                            (plans_offered operator)) mobile_operators);
              wifi_plans =
                concat (map (\<lambda>operator.
                          filter (\<lambda>pl. service pl = Svc ''wifi''
                                       \<and> plan_available_in_my_area pl quad)
                            (plans_offered operator)) wifi_operators);
              bundles = concat (map (\<lambda>m. map (\<lambda>w. (m, w)) wifi_plans) mobile_plans)
          in Some (Inr ((bundles, mobile_plans, wifi_plans), seed_counter')))"

text \<open>
  The month's replacement list holds pairs \<^verbatim>\<open>(isp, replacement)\<close>, the replacement a
  position in the firm's plans or None. \<^verbatim>\<open>all_agents_updates\<close>, for a connected
  household whose wifi plan is gone:
  \<^verbatim>\<open>replacement = replacements[bundle[1][1]]
  if replacement[1] == None:
      grid[row, cell, 3] = (bundle[0], None)
      bundle_update_trigger = True
  else:
      grid[row, cell, 3] = (bundle[0], ISPs[replacement[0]][1][replacement[1]])\<close>
  The result is the bundle and the trigger.
\<close>

definition replace_gone_plan ::
  "isp list \<Rightarrow> (nat \<times> nat option) list \<Rightarrow> plan_bundle \<Rightarrow> py_error + plan_bundle \<times> bool" where
  "replace_gone_plan ISPs replacements bundle =
     (case snd bundle of
        None \<Rightarrow> Inr (bundle, False)
      | Some w \<Rightarrow>
          if plan_isp w = ''PLAN GONE'' then
            (case service w of
               Svc s \<Rightarrow> Inl TypeError
             | Repl n \<Rightarrow>
                 if n < length replacements then
                   (case replacements ! n of
                      (isp, None) \<Rightarrow> Inr ((fst bundle, None), True)
                    | (isp, Some pl) \<Rightarrow>
                        if isp < length ISPs \<and> pl < length (plans_offered (ISPs ! isp))
                        then Inr ((fst bundle, Some (plans_offered (ISPs ! isp) ! pl)), False)
                        else Inl IndexError)
                 else Inl IndexError)
          else Inr (bundle, False))"

text \<open>
  Whether a populated household is sent back to the decision engine: always when it is
  disconnected; when connected, after the replacement of a plan that is gone, if the
  replacement is None or if \<^verbatim>\<open>decide_expenditure\<close> gives None or at least
  \<^verbatim>\<open>IncomeBudget * 100\<close>. The result is the household as it stands, the percentage and
  \<^verbatim>\<open>bundle_update_trigger\<close>.
\<close>

definition check_bundle ::
  "isp list \<Rightarrow> (nat \<times> nat option) list \<Rightarrow> real \<Rightarrow> person
     \<Rightarrow> py_error + person \<times> real option \<times> bool" where
  "check_bundle ISPs replacements IncomeBudget p =
     (if current_bundle p \<noteq> (None, None) then
        (case replace_gone_plan ISPs replacements (current_bundle p) of
           Inl e \<Rightarrow> Inl e
         | Inr (bundle, gone) \<Rightarrow>
        (case decide_expenditure bundle (income p) of
           Inl e \<Rightarrow> Inl e
         | Inr percent_spent_on_bundle \<Rightarrow>
             Inr (p\<lparr>current_bundle := bundle\<rparr>, percent_spent_on_bundle,
                  gone \<or> over_budget percent_spent_on_bundle IncomeBudget)))
      else Inr (p, None, True))"

text \<open>
  One cell of the three arrays \<^verbatim>\<open>grid\<close>, \<^verbatim>\<open>dynamic_switching_costs\<close> and \<^verbatim>\<open>switchers\<close>,
  and the variables that \<^verbatim>\<open>all_agents_updates\<close> carries from cell to cell: the local
  \<^verbatim>\<open>income\<close>, which is assigned for a connected household only and is unbound until
  then, \<^verbatim>\<open>num_real_problems\<close> and the global \<^verbatim>\<open>add_to_seed\<close>.
\<close>

record household =
  hh_person :: person
  hh_cost :: real
  hh_switcher :: int

record pass_vars =
  pv_income :: "real option"
  pv_num_real_problems :: nat
  pv_counter :: int

text \<open>
  The branch \<^verbatim>\<open>if bundle_update_trigger:\<close> of \<^verbatim>\<open>all_agents_updates\<close>:
  \<^verbatim>\<open>complete_bundles, mobile_plans, wifi_plans = prep_bundles(grid[row, cell], ...)
  new_bundle = decide_bundle(grid[row, cell], complete_bundles, mobile_plans, wifi_plans, ...)
  percent_spent_on_new_bundle = decide_expenditure(new_bundle, income)
  grid[row, cell, 3] = new_bundle
  grid[row, cell, 4] = percent_spent_on_new_bundle
  switchers[row, cell] = 1
  num_real_problems += 1\<close>
  The entry of \<^verbatim>\<open>switchers\<close> is set whatever bundle \<^verbatim>\<open>decide_bundle\<close> returns.
\<close>

definition reassess ::
  "(int \<Rightarrow> real) \<Rightarrow> (int \<Rightarrow> real list \<Rightarrow> nat) \<Rightarrow> (int \<Rightarrow> nat \<Rightarrow> nat) \<Rightarrow> isp list \<Rightarrow> nat list list
     \<Rightarrow> real \<Rightarrow> int \<Rightarrow> real \<Rightarrow> real \<Rightarrow> real \<Rightarrow> int \<Rightarrow> household \<Rightarrow> pass_vars
     \<Rightarrow> (py_error + household \<times> pass_vars) option" where
  "reassess rnd rnd_choices rnd_int ISPs operator_locations IncomeBudget TimeBudget
       MarketingBudget PrSacrificeWifi PrPickBetterValue Seed h vars =
     (case prep_bundles rnd_choices rnd_int (hh_person h) ISPs TimeBudget MarketingBudget
             operator_locations Seed (pv_counter vars) of
        None \<Rightarrow> None
      | Some (Inl e) \<Rightarrow> Some (Inl e)
      | Some (Inr ((complete_bundles, mobile_plans, wifi_plans), c1)) \<Rightarrow>
     (case decide_bundle rnd (hh_person h) complete_bundles mobile_plans wifi_plans
             PrSacrificeWifi PrPickBetterValue IncomeBudget Seed False c1 of
        Inl e \<Rightarrow> Some (Inl e)
      | Inr (new_bundle, c2) \<Rightarrow>
     (case pv_income vars of
        None \<Rightarrow> Some (Inl UnboundLocalError)
      | Some inc \<Rightarrow>
     (case decide_expenditure new_bundle inc of
        Inl e \<Rightarrow> Some (Inl e)
      | Inr percent_spent_on_new_bundle \<Rightarrow>
          Some (Inr (h\<lparr>hh_person := (hh_person h)\<lparr>current_bundle := new_bundle,
                                        percent_spent := percent_spent_on_new_bundle\<rparr>,
                       hh_switcher := 1\<rparr>,
                     vars\<lparr>pv_num_real_problems := pv_num_real_problems vars + 1,
                          pv_counter := c2\<rparr>))))))"

text \<open>
  The body of the loops of \<^verbatim>\<open>all_agents_updates\<close> for one cell. For a populated cell
  the switching cost is updated from the entry of \<^verbatim>\<open>switchers\<close>, the entry is reset to
  0, and the household is checked and, if need be, sent to the decision engine.
\<close>

definition update_household ::
  "(int \<Rightarrow> real) \<Rightarrow> (int \<Rightarrow> real list \<Rightarrow> nat) \<Rightarrow> (int \<Rightarrow> nat \<Rightarrow> nat) \<Rightarrow> isp list
     \<Rightarrow> (nat \<times> nat option) list \<Rightarrow> nat list list \<Rightarrow> real \<Rightarrow> real \<Rightarrow> int \<Rightarrow> real \<Rightarrow> real \<Rightarrow> real
     \<Rightarrow> int \<Rightarrow> household \<Rightarrow> pass_vars \<Rightarrow> (py_error + household \<times> pass_vars) option" where
  "update_household rnd rnd_choices rnd_int ISPs replacements operator_locations
       SwitchingCostIncrease IncomeBudget TimeBudget MarketingBudget PrSacrificeWifi
       PrPickBetterValue Seed h vars =
     (if populated (hh_person h) then
        (let h0 = h\<lparr>hh_cost := update_switching_cost (hh_switcher h) (hh_cost h)
                                  SwitchingCostIncrease,
                     hh_switcher := 0\<rparr>
         in case check_bundle ISPs replacements IncomeBudget (hh_person h) of
              Inl e \<Rightarrow> Some (Inl e)
            | Inr (p, percent_spent_on_bundle, bundle_update_trigger) \<Rightarrow>
                let vars1 = (if current_bundle (hh_person h) \<noteq> (None, None)
                             then vars\<lparr>pv_income := Some (income (hh_person h))\<rparr> else vars)
                in if bundle_update_trigger then
                     reassess rnd rnd_choices rnd_int ISPs operator_locations IncomeBudget
                       TimeBudget MarketingBudget PrSacrificeWifi PrPickBetterValue Seed
                       (h0\<lparr>hh_person := p\<rparr>) vars1
                   else Some (Inr (h0\<lparr>hh_person := p\<lparr>percent_spent :=
                                                          percent_spent_on_bundle\<rparr>\<rparr>,
                                   vars1)))
      else Some (Inr (h, vars)))"

text \<open>
  A loop that updates the cells one after the other, the first error ending it. The
  cells are listed in the order of the two loops over rows and columns.
\<close>

fun for_each ::
  "('a \<Rightarrow> 's \<Rightarrow> (py_error + 'a \<times> 's) option) \<Rightarrow> 'a list \<Rightarrow> 's
     \<Rightarrow> (py_error + 'a list \<times> 's) option" where
  "for_each body [] vars = Some (Inr ([], vars))"
| "for_each body (x # xs) vars =
     (case body x vars of
        None \<Rightarrow> None
      | Some (Inl e) \<Rightarrow> Some (Inl e)
      | Some (Inr (x', vars')) \<Rightarrow>
     (case for_each body xs vars' of
        None \<Rightarrow> None
      | Some (Inl e) \<Rightarrow> Some (Inl e)
      | Some (Inr (xs', vars'')) \<Rightarrow> Some (Inr (x' # xs', vars''))))"

text \<open>
  \<^verbatim>\<open>all_agents_updates\<close> returns the number of households sent to the decision engine
  and the arrays; \<^verbatim>\<open>operator_locations\<close> is a global that it reads.
\<close>

definition all_agents_updates ::
  "(int \<Rightarrow> real) \<Rightarrow> (int \<Rightarrow> real list \<Rightarrow> nat) \<Rightarrow> (int \<Rightarrow> nat \<Rightarrow> nat) \<Rightarrow> isp list
     \<Rightarrow> (nat \<times> nat option) list \<Rightarrow> nat list list \<Rightarrow> real \<Rightarrow> real \<Rightarrow> int \<Rightarrow> real \<Rightarrow> real \<Rightarrow> real
     \<Rightarrow> int \<Rightarrow> household list \<Rightarrow> int \<Rightarrow> (py_error + nat \<times> household list \<times> int) option" where
  "all_agents_updates rnd rnd_choices rnd_int ISPs replacements operator_locations
       SwitchingCostIncrease IncomeBudget TimeBudget MarketingBudget PrSacrificeWifi
       PrPickBetterValue Seed households seed_counter =
     (case for_each
             (update_household rnd rnd_choices rnd_int ISPs replacements operator_locations
                SwitchingCostIncrease IncomeBudget TimeBudget MarketingBudget PrSacrificeWifi
                PrPickBetterValue Seed)
             households
             \<lparr>pv_income = None, pv_num_real_problems = 0, pv_counter = seed_counter\<rparr> of
        None \<Rightarrow> None
      | Some (Inl e) \<Rightarrow> Some (Inl e)
      | Some (Inr (households', vars)) \<Rightarrow>
          Some (Inr (pv_num_real_problems vars, households', pv_counter vars)))"

text \<open>
  Stage 4 of \<^verbatim>\<open>simulate_market_dynamics\<close>, for one of the month's preparators: the
  other place where \<^verbatim>\<open>decide_bundle\<close> is called, and where the entry of \<^verbatim>\<open>switchers\<close>
  is set to 1 after it.
\<close>

definition stage_4 ::
  "(int \<Rightarrow> real) \<Rightarrow> (int \<Rightarrow> real list \<Rightarrow> nat) \<Rightarrow> (int \<Rightarrow> nat \<Rightarrow> nat) \<Rightarrow> isp list \<Rightarrow> nat list list
     \<Rightarrow> real \<Rightarrow> int \<Rightarrow> real \<Rightarrow> real \<Rightarrow> real \<Rightarrow> int \<Rightarrow> household \<Rightarrow> int
     \<Rightarrow> (py_error + household \<times> int) option" where
  "stage_4 rnd rnd_choices rnd_int ISPs operator_locations IncomeBudget TimeBudget
       MarketingBudget PrSacrificeWifi PrPickBetterValue Seed h seed_counter =
     (case prep_bundles rnd_choices rnd_int (hh_person h) ISPs TimeBudget MarketingBudget
             operator_locations Seed seed_counter of
        None \<Rightarrow> None
      | Some (Inl e) \<Rightarrow> Some (Inl e)
      | Some (Inr ((complete_bundles, mobile_plans, wifi_plans), c1)) \<Rightarrow>
     (case decide_bundle rnd (hh_person h) complete_bundles mobile_plans wifi_plans
             PrSacrificeWifi PrPickBetterValue IncomeBudget Seed False c1 of
        Inl e \<Rightarrow> Some (Inl e)
      | Inr (new_bundle, c2) \<Rightarrow>
     (case decide_expenditure new_bundle (income (hh_person h)) of
        Inl e \<Rightarrow> Some (Inl e)
      | Inr percent_spent_on_new_bundle \<Rightarrow>
          Some (Inr (h\<lparr>hh_person := (hh_person h)\<lparr>current_bundle := new_bundle,
                                        percent_spent := percent_spent_on_new_bundle\<rparr>,
                       hh_switcher := 1\<rparr>, c2)))))"

section \<open>Price experiments\<close>

text \<open>
  \<^verbatim>\<open>review_price_experiments\<close>, the candidate plans of a new experiment:
  \<^verbatim>\<open>choices = [choice for choice in range(len(ISPs[isp][1]))]
  for choice in choices:
      if ISPs[isp][1][choice][0] == 'PLAN GONE':
          choices = choices[:choice] + choices[choice+1:]\<close>
  The loop runs over the original list while the name is rebound to the shortened one,
  and it deletes by position.
\<close>

definition experiment_choices :: "plan list \<Rightarrow> nat list" where
  "experiment_choices plans =
     fold (\<lambda>choice choices.
             if plan_isp (plans ! choice) = ''PLAN GONE''
             then take choice choices @ drop (Suc choice) choices
             else choices)
       [0..<length plans] [0..<length plans]"

text \<open>
  \<^verbatim>\<open>min_price_allowed\<close>: for a wifi plan the wholesale price of the first tier of
  \<^verbatim>\<open>[15, 25, 50, 100, 250, 1000]\<close> that reaches its speed, plus 1 (no tier is found above
  1000 and the variable \<^verbatim>\<open>tier\<close> is then unbound), or the floor left by the slower plans
  of the same footprint when that is higher; for a mobile plan the floor left by the
  smaller plans.
\<close>

definition wholesale_tier :: "real \<Rightarrow> py_error + real" where
  "wholesale_tier speed =
     (if 15 \<ge> speed then Inr 12
      else if 25 \<ge> speed then Inr 26
      else if 50 \<ge> speed then Inr 50
      else if 100 \<ge> speed then Inr 55
      else if 250 \<ge> speed then Inr 60
      else if 1000 \<ge> speed then Inr 70
      else Inl UnboundLocalError)"

definition lower_plans_floor :: "(plan \<Rightarrow> bool) \<Rightarrow> real \<Rightarrow> plan list \<Rightarrow> real" where
  "lower_plans_floor comparable cap plans =
     fold (\<lambda>p min_price_based_on_lowers.
             if comparable p \<and> capacity p < cap \<and> price p > min_price_based_on_lowers
             then price p + 1 else min_price_based_on_lowers)
       plans 0"

definition min_price_allowed :: "plan list \<Rightarrow> plan \<Rightarrow> py_error + real" where
  "min_price_allowed plans target =
     (if service target = Svc ''wifi'' then
        (case wholesale_tier (capacity target) of
           Inl e \<Rightarrow> Inl e
         | Inr wholesale \<Rightarrow>
             let min_price_based_on_wholesale = wholesale + 1;
                 min_price_based_on_lowers =
                   lower_plans_floor
                     (\<lambda>p. plan_isp p \<noteq> ''PLAN GONE'' \<and> service p = Svc ''wifi''
                          \<and> footprint p = footprint target)
                     (capacity target) plans
             in if min_price_based_on_wholesale \<ge> min_price_based_on_lowers
                then Inr min_price_based_on_wholesale
                else Inr min_price_based_on_lowers)
      else
        Inr (lower_plans_floor
               (\<lambda>p. plan_isp p \<noteq> ''PLAN GONE'' \<and> service p = Svc ''mobile'')
               (capacity target) plans))"

text \<open>
  The start of an experiment, once plan and change are chosen:
  \<^verbatim>\<open>new_price = current_price + change*current_price
  ISPs[isp][1][targeted_plan][4] = new_price
  price_exp = [(ISPs[isp][1][targeted_plan], targeted_plan), change, LenPriceExp,
               copy.deepcopy(ISPs[isp][8])]\<close>
\<close>

definition set_price :: "nat \<Rightarrow> real \<Rightarrow> plan list \<Rightarrow> plan list" where
  "set_price k v plans = plans[k := (plans ! k)\<lparr>price := v\<rparr>]"

definition start_price_experiment :: "nat \<Rightarrow> real \<Rightarrow> int \<Rightarrow> isp \<Rightarrow> isp" where
  "start_price_experiment targeted_plan change LenPriceExp i =
     (let current_price = price (plans_offered i ! targeted_plan);
          new_price = current_price + change * current_price
      in i\<lparr>plans_offered := set_price targeted_plan new_price (plans_offered i),
           price_exp := Some \<lparr>pe_index = targeted_plan, pe_change = change,
                              pe_months_left = LenPriceExp, pe_prev_profit = profit i\<rparr>\<rparr>)"

text \<open>
  The choice of a new experiment. Three draws are made, each after reseeding:
  \<open>rnd s\<close> stands for \<^verbatim>\<open>random.random()\<close> and \<open>rnd_int s n\<close> for the position that
  \<^verbatim>\<open>random.choice\<close> takes in a sequence of length \<open>n\<close>, after seeding with \<open>s\<close>. A price
  cut that would go under \<^verbatim>\<open>min_price_allowed\<close> starts no experiment.
\<close>

definition new_price_experiment ::
  "(int \<Rightarrow> real) \<Rightarrow> (int \<Rightarrow> nat \<Rightarrow> nat) \<Rightarrow> real \<Rightarrow> int \<Rightarrow> real \<Rightarrow> int \<Rightarrow> isp \<Rightarrow> int
     \<Rightarrow> py_error + isp \<times> int" where
  "new_price_experiment rnd rnd_int PrPriceExp LenPriceExp PercentPriceChange Seed i c =
     (if rnd (Seed + c) < PrPriceExp then
        (let choices = experiment_choices (plans_offered i) in
         if choices = [] then Inl IndexError
         else
           let targeted_plan = choices ! (rnd_int (Seed + (c + 23)) (length choices)
                                            mod length choices);
               current_price = price (plans_offered i ! targeted_plan)
           in if rnd (Seed + (c + 46)) < 1/2 then
                (let change = - 1 * PercentPriceChange in
                 case min_price_allowed (plans_offered i) (plans_offered i ! targeted_plan) of
                   Inl e \<Rightarrow> Inl e
                 | Inr floor_price \<Rightarrow>
                     if current_price + change * current_price < floor_price
                     then Inr (i, c + 69)
                     else Inr (start_price_experiment targeted_plan change LenPriceExp i,
                               c + 69))
              else Inr (start_price_experiment targeted_plan PercentPriceChange
                          LenPriceExp i, c + 69))
      else Inr (i, c + 23))"

text \<open>
  The body of the loop of \<^verbatim>\<open>review_price_experiments\<close> for one firm. A firm whose
  moneypool is not positive is skipped (\<^verbatim>\<open>#don't bother with all this computation if the
  firm is dead\<close>). At countdown 0 the price is divided by \<^verbatim>\<open>1 + change\<close> when the profit
  does not exceed the recorded one, and the experiment ends either way; otherwise the
  countdown goes down by one.
\<close>

definition review_price_experiment ::
  "(int \<Rightarrow> real) \<Rightarrow> (int \<Rightarrow> nat \<Rightarrow> nat) \<Rightarrow> real \<Rightarrow> int \<Rightarrow> real \<Rightarrow> int \<Rightarrow> isp \<Rightarrow> int
     \<Rightarrow> py_error + isp \<times> int" where
  "review_price_experiment rnd rnd_int PrPriceExp LenPriceExp PercentPriceChange Seed i c =
     (if moneypool i > 0 then
        (case price_exp i of
           Some pe \<Rightarrow>
             if pe_months_left pe = 0 then
               (if profit i \<le> pe_prev_profit pe then
                  (if pe_index pe \<ge> length (plans_offered i) then Inl IndexError
                   else if 1 + pe_change pe = 0 then Inl ZeroDivisionError
                   else Inr (i\<lparr>plans_offered :=
                                  set_price (pe_index pe)
                                    (price (plans_offered i ! pe_index pe) / (1 + pe_change pe))
                                    (plans_offered i),
                                price_exp := None\<rparr>, c))
                else Inr (i\<lparr>price_exp := None\<rparr>, c))
             else Inr (i\<lparr>price_exp := Some (pe\<lparr>pe_months_left := pe_months_left pe - 1\<rparr>)\<rparr>, c)
         | None \<Rightarrow>
             if \<not> tech_exp i
             then new_price_experiment rnd rnd_int PrPriceExp LenPriceExp PercentPriceChange
                    Seed i c
             else Inr (i, c))
      else Inr (i, c))"

fun review_price_experiments ::
  "(int \<Rightarrow> real) \<Rightarrow> (int \<Rightarrow> nat \<Rightarrow> nat) \<Rightarrow> real \<Rightarrow> int \<Rightarrow> real \<Rightarrow> int \<Rightarrow> isp list \<Rightarrow> int
     \<Rightarrow> py_error + isp list \<times> int" where
  "review_price_experiments rnd rnd_int PrPriceExp LenPriceExp PercentPriceChange Seed [] c =
     Inr ([], c)"
| "review_price_experiments rnd rnd_int PrPriceExp LenPriceExp PercentPriceChange Seed
       (i # ISPs) c =
     (case review_price_experiment rnd rnd_int PrPriceExp LenPriceExp PercentPriceChange
             Seed i c of
        Inl e \<Rightarrow> Inl e
      | Inr (i', c') \<Rightarrow>
          (case review_price_experiments rnd rnd_int PrPriceExp LenPriceExp
                  PercentPriceChange Seed ISPs c' of
             Inl e \<Rightarrow> Inl e
           | Inr (rest, c'') \<Rightarrow> Inr (i' # rest, c'')))"

section \<open>Sample market data\<close>

text \<open>Plans, households and a random source for the evaluated examples.\<close>

definition sample_mobile :: plan where
  "sample_mobile = \<lparr>plan_isp = ''Telstra'', service = Svc ''mobile'', capacity = 10,
     footprint = ''remote'', price = 30, supplier = ''Telstra''\<rparr>"

definition sample_wifi_12 :: plan where
  "sample_wifi_12 = \<lparr>plan_isp = ''Telstra'', service = Svc ''wifi'', capacity = 12,
     footprint = ''urban'', price = 50, supplier = ''NBN Co''\<rparr>"

definition sample_wifi_50 :: plan where
  "sample_wifi_50 = \<lparr>plan_isp = ''Telstra'', service = Svc ''wifi'', capacity = 50,
     footprint = ''urban'', price = 110, supplier = ''NBN Co''\<rparr>"

definition sample_wifi_50_budget :: plan where
  "sample_wifi_50_budget = \<lparr>plan_isp = ''Dodo'', service = Svc ''wifi'', capacity = 50,
     footprint = ''urban'', price = 50, supplier = ''NBN Co''\<rparr>"

definition sample_person :: "real \<Rightarrow> plan_bundle \<Rightarrow> person" where
  "sample_person inc b = \<lparr>location = (10, 10), populated = True, income = inc,
     current_bundle = b, percent_spent = None\<rparr>"

definition sample_rnd :: "int \<Rightarrow> real" where
  "sample_rnd s = 1/2"

definition sample_isp ::
  "string \<Rightarrow> nat list option \<Rightarrow> nat list option \<Rightarrow> real \<Rightarrow> real \<Rightarrow> isp" where
  "sample_isp name mobile wifi p pool =
     \<lparr>isp_name = name, plans_offered = [], mobile_offered = (mobile \<noteq> None),
      mobile_locations = mobile, wifi_offered = (wifi \<noteq> None), wifi_locations = wifi,
      price_exp = None, tech_exp = False, profit = p, moneypool = pool\<rparr>"

definition sample_market :: "real \<Rightarrow> isp list" where
  "sample_market pool =
     [sample_isp ''Telstra'' (Some [0, 1, 2, 3]) (Some [0]) 10 100,
      sample_isp ''Dodo'' None (Some [0, 1, 2]) (-5) pool]"

definition sample_rnd_int :: "int \<Rightarrow> nat \<Rightarrow> nat" where
  "sample_rnd_int s n = 0"



definition sample_rnd_choices :: "int \<Rightarrow> real list \<Rightarrow> nat" where
  "sample_rnd_choices s weights = 0"

definition sample_regional_market :: "isp list" where
  "sample_regional_market = [sample_isp ''Dodo'' None (Some [0, 1, 2]) 10 100]"

definition sample_full_service :: isp where
  "sample_full_service =
     \<lparr>isp_name = ''Telstra'', plans_offered = [sample_mobile, sample_wifi_50],
      mobile_offered = True, mobile_locations = Some [0, 1, 2, 3], wifi_offered = True,
      wifi_locations = Some [0], price_exp = None, tech_exp = False, profit = 10,
      moneypool = 100\<rparr>"

definition sample_household :: "real \<Rightarrow> int \<Rightarrow> household" where
  "sample_household cost switcher =
     \<lparr>hh_person = sample_person 640 (Some sample_mobile, Some sample_wifi_12),
      hh_cost = cost, hh_switcher = switcher\<rparr>"

definition sample_reassessed :: "real \<Rightarrow> int \<Rightarrow> household" where
  "sample_reassessed cost switcher =
     \<lparr>hh_person = (sample_person 640 (Some sample_mobile, Some sample_wifi_12))
                     \<lparr>percent_spent := Some (25/2)\<rparr>,
      hh_cost = cost, hh_switcher = switcher\<rparr>"

section \<open>Properties\<close>

lemmas sample_data_defs = sample_mobile_def sample_wifi_12_def sample_wifi_50_def
  sample_wifi_50_budget_def sample_person_def sample_rnd_def

lemmas decision_defs = decide_bundle_def decision_tree_def initial_current_best_def
  running_max_def eval_complete_def eval_plan_def tree_step_def accept_def dummy_bundle_def
  new_is_a_cheaper_minimum_quality_def pick_cheaper_def pick_better_value_def
  decide_expenditure_def over_budget_def

text \<open>
  C8 (marketing-spend rule). The claim takes the same loss-making test in both places.
  The consideration weight does use \<open>profit \<le> 0\<close>, but the monthly expense tests
  \<open>profit = 0\<close>: for a firm with profit -500 and moneypool 1000 at a marketing budget of
  one tenth, the weight is 100 (from the moneypool) while the expense deducted is -50
  (from the negative profit), which raises the firm's profit over its sales margin.
\<close>

theorem marketing_rule_diverges_on_loss:
  "marketing_budget (1/10) \<lparr>isp_name = ''A'', plans_offered = [], mobile_offered = False,
      mobile_locations = None, wifi_offered = True, wifi_locations = Some [0],
      price_exp = None, tech_exp = False, profit = -500, moneypool = 1000\<rparr> = 100
   \<and> marketing_expenditure (1/10) \<lparr>isp_name = ''A'', plans_offered = [], mobile_offered = False,
      mobile_locations = None, wifi_offered = True, wifi_locations = Some [0],
      price_exp = None, tech_exp = False, profit = -500, moneypool = 1000\<rparr> = -50
   \<and> map_sum id profit (update_isp 10 0 (1/10) 5 0 \<lparr>isp_name = ''A'', plans_offered = [],
      mobile_offered = False, mobile_locations = None, wifi_offered = True,
      wifi_locations = Some [0], price_exp = None, tech_exp = False, profit = -500,
      moneypool = 1000\<rparr>) = Inr 40"
  by (simp add: marketing_budget_def marketing_expenditure_def update_isp_def
      total_expenditure_def len_locations_def)

subsection \<open>The decision tree\<close>

lemma tree_step_cases:
  "tree_step rnd inc IB PrS PrP Seed new k st = st' \<Longrightarrow>
     (current_best st' = current_best st \<and> current_best_index st' = current_best_index st)
   \<or> (current_best st' = new \<and> current_best_index st' = Some k \<and> ev_price new / inc < IB)"
  by (auto simp add: tree_step_def accept_def Let_def split: if_splits)

lemma tree_loop_index:
  "tree_loop rnd inc IB PrS PrP Seed evs k st = Inr st' \<Longrightarrow>
     (current_best st' = current_best st \<and> current_best_index st' = current_best_index st)
   \<or> (\<exists>i. current_best_index st' = Some i \<and> k \<le> i \<and> i < k + length evs
          \<and> current_best st' = evs ! (i - k) \<and> ev_price (evs ! (i - k)) / inc < IB)"
proof (induction evs arbitrary: k st)
  case Nil
  then show ?case by simp
next
  case (Cons new rest)
  from Cons.prems have nz: "inc \<noteq> 0" by (auto split: if_splits)
  let ?s = "tree_step rnd inc IB PrS PrP Seed new k st"
  from Cons.prems nz have loop: "tree_loop rnd inc IB PrS PrP Seed rest (Suc k) ?s = Inr st'"
    by simp
  from Cons.IH [OF loop] tree_step_cases [of rnd inc IB PrS PrP Seed new k st ?s]
  show ?case
    apply (elim disjE)
    apply auto
    done
qed

lemma eval_complete_price:
  "ev_price (eval_complete a b x) = price (fst x) + price (snd x)"
  by (simp add: eval_complete_def)

lemma initial_current_best_complete:
  "initial_current_best p (Complete bs) ic = Inr cur \<Longrightarrow>
   cur = dummy_bundle \<or> (\<exists>m w. current_bundle p = (Some m, Some w))"
  by (cases "current_bundle p"; cases "fst (current_bundle p)"; cases "snd (current_bundle p)")
     (auto simp add: initial_current_best_def Let_def split: if_splits)

lemma decision_tree_complete_cases:
  assumes "decision_tree rnd p (Complete bs) IB PrS PrP Seed ic c = Inr (d, c')"
  shows "(d = NoOption)
       \<or> (d = NoChange \<and> (\<exists>cur. initial_current_best p (Complete bs) ic = Inr cur
              \<and> \<not> (ev_price cur / income p > IB)))
       \<or> (\<exists>i. d = Chosen i \<and> i < length bs
              \<and> (price (fst (bs ! i)) + price (snd (bs ! i))) / income p < IB)"
proof (cases "bs = []")
  case True
  with assms show ?thesis by (simp add: decision_tree_def)
next
  case False
  from assms False obtain evs where evs: "create_bundle_eval_list (Complete bs) = Inr evs"
    by (auto simp add: decision_tree_def split: sum.splits)
  from assms False evs obtain cur where cur: "initial_current_best p (Complete bs) ic = Inr cur"
    by (auto simp add: decision_tree_def split: sum.splits)
  let ?st0 = "\<lparr>current_best = cur, current_best_index = None, add_to_seed = c\<rparr>"
  from assms False evs cur obtain st where
    loop: "tree_loop rnd (income p) IB PrS PrP Seed evs 0 ?st0 = Inr st"
    by (auto simp add: decision_tree_def split: sum.splits)
  from assms False evs cur loop have d:
    "d = (case current_best_index st of
            None \<Rightarrow> if ev_price (current_best st) / income p > IB then NoOption else NoChange
          | Some i \<Rightarrow> Chosen i)"
    by (auto simp add: decision_tree_def split: option.splits if_splits)
  from evs False obtain a b where evs_eq: "evs = map (eval_complete a b) bs"
    by (auto simp add: Let_def split: if_splits)
  from tree_loop_index [OF loop] show ?thesis
  proof
    assume "current_best st = current_best ?st0 \<and> current_best_index st = current_best_index ?st0"
    with d cur show ?thesis by (auto split: if_splits)
  next
    assume "\<exists>i. current_best_index st = Some i \<and> 0 \<le> i \<and> i < 0 + length evs
          \<and> current_best st = evs ! (i - 0) \<and> ev_price (evs ! (i - 0)) / income p < IB"
    then obtain i where "current_best_index st = Some i" "i < length evs"
      "ev_price (evs ! i) / income p < IB" by auto
    with d evs_eq show ?thesis by (simp add: eval_complete_price)
  qed
qed

lemma initial_current_best_dummy:
  "ic \<or> fst (current_bundle p) = None \<or> snd (current_bundle p) = None \<Longrightarrow>
   initial_current_best p (Complete bs) ic = Inr dummy_bundle"
  by (cases "current_bundle p") (auto simp add: initial_current_best_def Let_def)

lemma running_max_two:
  "0 < a \<Longrightarrow> 0 < b \<Longrightarrow> running_max [a, b] = max a b"
  by (auto simp add: running_max_def)

lemma eval_list_price:
  "create_bundle_eval_list bundles = Inr evs \<Longrightarrow>
   length evs = candidate_count bundles
   \<and> (\<forall>i < length evs. ev_price (evs ! i) = candidate_price bundles i)"
  by (cases bundles)
     (auto simp add: Let_def eval_complete_def eval_plan_def split: if_splits)

lemma initial_current_best_price:
  "initial_current_best p bundles ic = Inr cur \<Longrightarrow>
   cur = dummy_bundle
   \<or> (current_bundle p \<noteq> (None, None) \<and> ev_price cur = bundle_price (current_bundle p))"
  by (cases "current_bundle p"; cases "fst (current_bundle p)"; cases "snd (current_bundle p)")
     (auto simp add: initial_current_best_def Let_def eval_complete_def eval_plan_def
        running_max_def split: if_splits)

lemma decision_tree_cases:
  assumes "decision_tree rnd p bundles IB PrS PrP Seed ic c = Inr (d, c')"
  shows "d = NoOption
       \<or> (d = NoChange \<and> (\<exists>cur. initial_current_best p bundles ic = Inr cur
              \<and> ev_price cur / income p \<le> IB))
       \<or> (\<exists>i. d = Chosen i \<and> i < candidate_count bundles
              \<and> candidate_price bundles i / income p < IB)"
proof (cases "no_candidates bundles")
  case True
  with assms show ?thesis by (simp add: decision_tree_def)
next
  case False
  from assms False obtain evs where evs: "create_bundle_eval_list bundles = Inr evs"
    by (auto simp add: decision_tree_def split: sum.splits)
  from assms False evs obtain cur where cur: "initial_current_best p bundles ic = Inr cur"
    by (auto simp add: decision_tree_def split: sum.splits)
  let ?st0 = "\<lparr>current_best = cur, current_best_index = None, add_to_seed = c\<rparr>"
  from assms False evs cur obtain st where
    loop: "tree_loop rnd (income p) IB PrS PrP Seed evs 0 ?st0 = Inr st"
    by (auto simp add: decision_tree_def split: sum.splits)
  from assms False evs cur loop have d:
    "d = (case current_best_index st of
            None \<Rightarrow> if ev_price (current_best st) / income p > IB then NoOption else NoChange
          | Some i \<Rightarrow> Chosen i)"
    by (auto simp add: decision_tree_def split: option.splits if_splits)
  note pr = eval_list_price [OF evs]
  from tree_loop_index [OF loop] show ?thesis
  proof
    assume "current_best st = current_best ?st0 \<and> current_best_index st = current_best_index ?st0"
    with d cur show ?thesis by (auto split: if_splits)
  next
    assume "\<exists>i. current_best_index st = Some i \<and> 0 \<le> i \<and> i < 0 + length evs
          \<and> current_best st = evs ! (i - 0) \<and> ev_price (evs ! (i - 0)) / income p < IB"
    then obtain i where "current_best_index st = Some i" "i < length evs"
      "ev_price (evs ! i) / income p < IB" by auto
    with d pr show ?thesis by simp
  qed
qed

lemma decide_expenditure_price:
  "inc \<noteq> 0 \<Longrightarrow> b \<noteq> (None, None) \<Longrightarrow>
   decide_expenditure b inc = Inr (Some (bundle_price b / inc * 100))"
  by (cases b; cases "fst b"; cases "snd b") (auto simp add: decide_expenditure_def)

lemma kept_bundle_within_ceiling:
  assumes cur: "initial_current_best p bundles ic = Inr cur"
    and le: "ev_price cur / income p \<le> IB"
    and inc: "0 < income p" and big: "IB * income p < 1000000000"
  shows "current_bundle p \<noteq> (None, None) \<and> bundle_price (current_bundle p) / income p \<le> IB"
proof -
  from inc big have "IB < 1000000000 / income p" by (simp add: pos_less_divide_eq)
  with le have "cur \<noteq> dummy_bundle" by (auto simp add: dummy_bundle_def)
  with initial_current_best_price [OF cur] le show ?thesis by auto
qed

lemma decide_bundle_within_ceiling:
  assumes db: "decide_bundle rnd p complete_bundles mobile_plans wifi_plans PrS PrP IB Seed ic c
                 = Inr (b, c')"
    and inc: "0 < income p" and big: "IB * income p < 1000000000"
    and conn: "b \<noteq> (None, None)"
  shows "bundle_price b / income p \<le> IB
       \<and> (b \<noteq> current_bundle p \<longrightarrow> bundle_price b / income p < IB)"
proof -
  from db obtain d1 c1 where
    dt1: "decision_tree rnd p (Complete complete_bundles) IB PrS PrP Seed ic c = Inr (d1, c1)"
    by (auto simp add: decide_bundle_def split: sum.splits)
  note k = kept_bundle_within_ceiling [OF _ _ inc big]
  from decision_tree_cases [OF dt1] show ?thesis
  proof (elim disjE conjE exE)
    assume "d1 = NoChange"
    with db dt1 have "b = current_bundle p" by (simp add: decide_bundle_def)
    moreover fix cur assume "initial_current_best p (Complete complete_bundles) ic = Inr cur"
      "ev_price cur / income p \<le> IB"
    ultimately show ?thesis using k by simp
  next
    fix i assume "d1 = Chosen i" "i < candidate_count (Complete complete_bundles)"
      "candidate_price (Complete complete_bundles) i / income p < IB"
    with db dt1 show ?thesis by (auto simp add: decide_bundle_def)
  next
    assume n1: "d1 = NoOption"
    with db dt1 obtain d2 c2 where
      dt2: "decision_tree rnd p (Plans mobile_plans) IB PrS PrP Seed ic c1 = Inr (d2, c2)"
      by (auto simp add: decide_bundle_def split: sum.splits)
    from decision_tree_cases [OF dt2] show ?thesis
    proof (elim disjE conjE exE)
      assume "d2 = NoChange"
      with db dt1 n1 dt2 have "b = current_bundle p" by (simp add: decide_bundle_def)
      moreover fix cur assume "initial_current_best p (Plans mobile_plans) ic = Inr cur"
        "ev_price cur / income p \<le> IB"
      ultimately show ?thesis using k by simp
    next
      fix i assume "d2 = Chosen i" "i < candidate_count (Plans mobile_plans)"
        "candidate_price (Plans mobile_plans) i / income p < IB"
      with db dt1 n1 dt2 show ?thesis by (auto simp add: decide_bundle_def)
    next
      assume n2: "d2 = NoOption"
      with db dt1 n1 dt2 obtain d3 c3 where
        dt3: "decision_tree rnd p (Plans wifi_plans) IB PrS PrP Seed ic c2 = Inr (d3, c3)"
        by (auto simp add: decide_bundle_def split: sum.splits)
      from decision_tree_cases [OF dt3] show ?thesis
      proof (elim disjE conjE exE)
        assume "d3 = NoChange"
        with db dt1 n1 dt2 n2 dt3 have "b = current_bundle p" by (simp add: decide_bundle_def)
        moreover fix cur assume "initial_current_best p (Plans wifi_plans) ic = Inr cur"
          "ev_price cur / income p \<le> IB"
        ultimately show ?thesis using k by simp
      next
        fix i assume "d3 = Chosen i" "i < candidate_count (Plans wifi_plans)"
          "candidate_price (Plans wifi_plans) i / income p < IB"
        with db dt1 n1 dt2 n2 dt3 show ?thesis by (auto simp add: decide_bundle_def)
      next
        assume "d3 = NoOption"
        with db dt1 n1 dt2 n2 dt3 conn show ?thesis by (simp add: decide_bundle_def)
      qed
    qed
  qed
qed

text \<open>
  C1 (affordability ceiling). Every candidate that the decision tree accepts is strictly
  under the ceiling (\<open>decide_bundle_within_ceiling\<close>), but the test that keeps the
  current bundle is \<^verbatim>\<open>current_best[0]/income > IncomeBudget\<close>, which lets a bundle
  priced exactly at the ceiling stay. A household with income 640 holding a bundle of
  price 80, at a ceiling of one eighth, is flagged by the reassessment pass (12.5 percent
  is not below the ceiling), offered one dearer bundle, and keeps the bundle it has.
\<close>

theorem keep_at_ceiling:
  "decide_bundle sample_rnd (sample_person 640 (Some sample_mobile, Some sample_wifi_12))
      [(sample_mobile, sample_wifi_50)] [sample_mobile] [sample_wifi_50]
      (1/2) (1/2) (1/8) 7 False 0
   = Inr ((Some sample_mobile, Some sample_wifi_12), 0)
   \<and> decide_expenditure (Some sample_mobile, Some sample_wifi_12) 640 = Inr (Some (25/2))
   \<and> \<not> (bundle_price (Some sample_mobile, Some sample_wifi_12) / 640 < 1/8)
   \<and> over_budget (Some (25/2)) (1/8)"
  by (simp add: decision_defs sample_data_defs)

lemma tree_step_index_kept:
  "current_best_index st \<noteq> None \<Longrightarrow>
   current_best_index (tree_step rnd inc IB PrS PrP Seed new k st) \<noteq> None"
  using tree_step_cases [OF refl, of rnd inc IB PrS PrP Seed new k st] by auto

lemma tree_loop_index_kept:
  "tree_loop rnd inc IB PrS PrP Seed evs k st = Inr st' \<Longrightarrow> current_best_index st \<noteq> None \<Longrightarrow>
   current_best_index st' \<noteq> None"
proof (induction evs arbitrary: k st)
  case Nil
  then show ?case by simp
next
  case (Cons new rest)
  from Cons.prems(1) have
    "tree_loop rnd inc IB PrS PrP Seed rest (Suc k) (tree_step rnd inc IB PrS PrP Seed new k st)
       = Inr st'"
    by (simp split: if_splits)
  from Cons.IH [OF this tree_step_index_kept [OF Cons.prems(2)]] show ?case .
qed

lemma tree_step_accepts_over_dummy:
  assumes inc: "0 < inc" and aff: "ev_price new / inc < IB"
    and small: "ev_price new < 1000000000" and real_flag: "ev_mqm new \<noteq> Dummy"
    and cur: "current_best st = dummy_bundle"
  shows "current_best_index (tree_step rnd inc IB PrS PrP Seed new k st) = Some k"
proof (cases "1000000000 / inc \<ge> 5/100")
  case True
  with aff small cur show ?thesis
    by (simp add: tree_step_def accept_def dummy_bundle_def)
next
  case False
  from small inc have "ev_price new / inc < 1000000000 / inc" by (simp add: divide_strict_right_mono)
  with False have "ev_price new / inc < 5/100" by linarith
  with False aff cur real_flag show ?thesis
    by (simp add: tree_step_def accept_def dummy_bundle_def Let_def
        new_is_a_cheaper_minimum_quality_def)
qed

lemma tree_step_accepts_cheaper:
  assumes inc: "0 < inc" and aff: "ev_price new / inc < IB"
    and dear: "5/100 \<le> ev_price (current_best st) / inc"
    and over: "IB < ev_price (current_best st) / inc"
  shows "current_best_index (tree_step rnd inc IB PrS PrP Seed new k st) = Some k"
proof -
  from aff over have "ev_price new / inc < ev_price (current_best st) / inc" by simp
  with inc have "ev_price new < ev_price (current_best st)"
    by (simp add: divide_less_cancel)
  with aff dear show ?thesis by (simp add: tree_step_def accept_def)
qed

lemma tree_loop_accepts:
  assumes loop: "tree_loop rnd inc IB PrS PrP Seed evs k st = Inr st'" and inc: "0 < inc"
    and good: "\<exists>e \<in> set evs. ev_price e / inc < IB \<and> ev_price e < 1000000000 \<and> ev_mqm e \<noteq> Dummy"
    and base: "current_best st = dummy_bundle
               \<or> (5/100 \<le> ev_price (current_best st) / inc \<and> IB < ev_price (current_best st) / inc)"
  shows "current_best_index st' \<noteq> None"
  using loop good base
proof (induction evs arbitrary: k st)
  case Nil
  then show ?case by simp
next
  case (Cons new rest)
  let ?s = "tree_step rnd inc IB PrS PrP Seed new k st"
  from Cons.prems(1) have loop': "tree_loop rnd inc IB PrS PrP Seed rest (Suc k) ?s = Inr st'"
    by (simp split: if_splits)
  show ?case
  proof (cases "current_best_index ?s = None")
    case False
    with loop' show ?thesis by (rule tree_loop_index_kept)
  next
    case True
    with tree_step_cases [OF refl, of rnd inc IB PrS PrP Seed new k st]
    have same: "current_best ?s = current_best st" by auto
    have "\<not> (ev_price new / inc < IB \<and> ev_price new < 1000000000 \<and> ev_mqm new \<noteq> Dummy)"
    proof
      assume g: "ev_price new / inc < IB \<and> ev_price new < 1000000000 \<and> ev_mqm new \<noteq> Dummy"
      from Cons.prems(3) have "current_best_index ?s = Some k"
      proof
        assume "current_best st = dummy_bundle"
        with g inc show ?thesis by (simp add: tree_step_accepts_over_dummy)
      next
        assume "5/100 \<le> ev_price (current_best st) / inc \<and> IB < ev_price (current_best st) / inc"
        with g inc show ?thesis by (simp add: tree_step_accepts_cheaper)
      qed
      with True show False by simp
    qed
    with Cons.prems(2) have
      "\<exists>e \<in> set rest. ev_price e / inc < IB \<and> ev_price e < 1000000000 \<and> ev_mqm e \<noteq> Dummy"
      by auto
    from Cons.IH [OF loop' this] Cons.prems(3) same show ?thesis by simp
  qed
qed

lemma initial_current_best_held:
  "current_bundle p = (Some m, Some w) \<Longrightarrow>
   initial_current_best p bundles False
     = map_sum id hd (create_bundle_eval_list (Complete [(m, w)]))"
  by (simp add: initial_current_best_def)

lemma held_evaluation:
  assumes "map_sum id hd (create_bundle_eval_list (Complete [(m, w)])) = Inr cur"
  shows "ev_price cur = price m + price w \<and> ev_value cur = 1
         \<and> (\<exists>x. ev_mqm cur = Q x) \<and> (\<exists>y. ev_mqw cur = Q y)"
  using assms
  by (auto simp add: running_max_def eval_complete_def Let_def split: if_splits)

lemma decision_tree_complete_candidate:
  assumes dt: "decision_tree rnd p (Complete bs) IB PrS PrP Seed ic c = Inr (d, c')"
    and inc: "0 < income p"
    and aff: "\<exists>x \<in> set bs. (price (fst x) + price (snd x)) / income p < IB
                \<and> price (fst x) + price (snd x) < 1000000000"
  shows "(\<exists>i. d = Chosen i)
       \<or> (\<not> ic \<and> (\<exists>m w cur. current_bundle p = (Some m, Some w)
             \<and> map_sum id hd (create_bundle_eval_list (Complete [(m, w)])) = Inr cur
             \<and> (d = NoChange
                \<or> (d = NoOption \<and> IB < ev_price cur / income p
                     \<and> ev_price cur / income p < 5/100))))"
proof -
  from aff have ne: "bs \<noteq> []" by auto
  from dt ne obtain evs where evs: "create_bundle_eval_list (Complete bs) = Inr evs"
    by (auto simp add: decision_tree_def split: sum.splits)
  from dt ne evs obtain cur where cur: "initial_current_best p (Complete bs) ic = Inr cur"
    by (auto simp add: decision_tree_def split: sum.splits)
  let ?st0 = "\<lparr>current_best = cur, current_best_index = None, add_to_seed = c\<rparr>"
  from dt ne evs cur obtain st where
    loop: "tree_loop rnd (income p) IB PrS PrP Seed evs 0 ?st0 = Inr st"
    by (auto simp add: decision_tree_def split: sum.splits)
  from dt ne evs cur loop have d:
    "d = (case current_best_index st of
            None \<Rightarrow> if ev_price (current_best st) / income p > IB then NoOption else NoChange
          | Some i \<Rightarrow> Chosen i)"
    by (auto simp add: decision_tree_def split: option.splits if_splits)
  from evs ne obtain a b where evs_eq: "evs = map (eval_complete a b) bs"
    by (auto simp add: Let_def split: if_splits)
  from aff evs_eq have good:
    "\<exists>e \<in> set evs. ev_price e / income p < IB \<and> ev_price e < 1000000000 \<and> ev_mqm e \<noteq> Dummy"
    by (auto simp add: eval_complete_def)
  show ?thesis
  proof (cases "current_best_index st")
    case (Some i)
    with d show ?thesis by simp
  next
    case None
    have not_dummy: "cur \<noteq> dummy_bundle"
    proof
      assume "cur = dummy_bundle"
      with tree_loop_accepts [OF loop inc good] None show False by simp
    qed
    have not_ic: "\<not> ic"
    proof
      assume ic
      with cur not_dummy show False by (simp add: initial_current_best_def)
    qed
    from initial_current_best_complete [OF cur] not_dummy obtain m w where
      held: "current_bundle p = (Some m, Some w)" by auto
    from cur not_ic initial_current_best_held [OF held, of "Complete bs"]
    have ev: "map_sum id hd (create_bundle_eval_list (Complete [(m, w)])) = Inr cur" by simp
    from tree_loop_index [OF loop] None have same: "current_best st = cur" by auto
    have gap: "IB < ev_price cur / income p \<Longrightarrow> ev_price cur / income p < 5/100"
    proof (rule ccontr)
      assume "IB < ev_price cur / income p" and "\<not> ev_price cur / income p < 5/100"
      with tree_loop_accepts [OF loop inc good] None show False by simp
    qed
    from d None same gap have
      "d = NoChange \<or> (d = NoOption \<and> IB < ev_price cur / income p
                        \<and> ev_price cur / income p < 5/100)"
      by (cases "ev_price cur / income p > IB") simp_all
    with not_ic held ev show ?thesis by blast
  qed
qed

lemma running_max_fold_bounds:
  "a \<le> fold (\<lambda>x m. if x > m then x else m) xs (a :: real)
   \<and> (\<forall>x \<in> set xs. x \<le> fold (\<lambda>x m. if x > m then x else m) xs a)"
proof (induction xs arbitrary: a)
  case Nil
  then show ?case by simp
next
  case (Cons y ys)
  from Cons.IH [of "if y > a then y else a"] show ?case by (auto split: if_splits) 
qed

lemma eval_plan_value_le_one:
  assumes "pl \<in> set ps" and "running_max (map capacity ps) \<noteq> 0"
  shows "ev_value (eval_plan (running_max (map capacity ps)) pl) \<le> 1"
proof -
  let ?mx = "running_max (map capacity ps)"
  from running_max_fold_bounds [of 0 "map capacity ps"] assms
  have "0 \<le> ?mx" and "capacity pl \<le> ?mx" by (auto simp add: running_max_def)
  with assms(2) show ?thesis by (simp add: eval_plan_def)
qed

lemma eval_plan_flags:
  "(ev_mqm (eval_plan mx pl) = QNone \<or> ev_mqw (eval_plan mx pl) = QNone)
   \<and> ev_mqm (eval_plan mx pl) \<noteq> Dummy"
  by (simp add: eval_plan_def)

lemma tree_step_keeps_complete_baseline:
  assumes cheap: "ev_price (current_best st) / inc < 5/100"
    and unit_value: "ev_value (current_best st) = 1"
    and flags: "ev_mqm (current_best st) = Q x" "ev_mqw (current_best st) = Q y"
    and new_value: "ev_value new \<le> 1"
    and new_flags: "ev_mqm new = QNone \<or> ev_mqw new = QNone" "ev_mqm new \<noteq> Dummy"
  shows "current_best (tree_step rnd inc IB PrS PrP Seed new k st) = current_best st
       \<and> current_best_index (tree_step rnd inc IB PrS PrP Seed new k st) = current_best_index st"
  using assms
  by (auto simp add: tree_step_def Let_def new_is_a_cheaper_minimum_quality_def)

lemma tree_loop_keeps_complete_baseline:
  assumes "tree_loop rnd inc IB PrS PrP Seed evs k st = Inr st'"
    and "ev_price (current_best st) / inc < 5/100"
    and "ev_value (current_best st) = 1"
    and "ev_mqm (current_best st) = Q x" "ev_mqw (current_best st) = Q y"
    and "\<forall>new \<in> set evs. ev_value new \<le> 1 \<and> (ev_mqm new = QNone \<or> ev_mqw new = QNone)
            \<and> ev_mqm new \<noteq> Dummy"
  shows "current_best st' = current_best st \<and> current_best_index st' = current_best_index st"
  using assms
proof (induction evs arbitrary: k st)
  case Nil
  then show ?case by simp
next
  case (Cons new rest)
  let ?s = "tree_step rnd inc IB PrS PrP Seed new k st"
  from Cons.prems(1) have loop': "tree_loop rnd inc IB PrS PrP Seed rest (Suc k) ?s = Inr st'"
    by (simp split: if_splits)
  from Cons.prems have step: "current_best ?s = current_best st
      \<and> current_best_index ?s = current_best_index st"
    by (intro tree_step_keeps_complete_baseline) auto
  from Cons.IH [OF loop'] Cons.prems step show ?case by simp
qed

lemma decision_tree_no_single_plan:
  assumes dt: "decision_tree rnd p (Plans ps) IB PrS PrP Seed False c = Inr (d, c')"
    and held: "current_bundle p = (Some m, Some w)"
    and ev: "map_sum id hd (create_bundle_eval_list (Complete [(m, w)])) = Inr cur"
    and over: "IB < ev_price cur / income p" and cheap: "ev_price cur / income p < 5/100"
  shows "d = NoOption"
proof (cases "ps = []")
  case True
  with dt show ?thesis by (simp add: decision_tree_def)
next
  case False
  from dt False obtain evs where evs: "create_bundle_eval_list (Plans ps) = Inr evs"
    by (auto simp add: decision_tree_def split: sum.splits)
  from initial_current_best_held [OF held, of "Plans ps"] ev
  have cur: "initial_current_best p (Plans ps) False = Inr cur" by simp
  let ?st0 = "\<lparr>current_best = cur, current_best_index = None, add_to_seed = c\<rparr>"
  from dt False evs cur obtain st where
    loop: "tree_loop rnd (income p) IB PrS PrP Seed evs 0 ?st0 = Inr st"
    by (auto simp add: decision_tree_def split: sum.splits)
  from dt False evs cur loop have d:
    "d = (case current_best_index st of
            None \<Rightarrow> if ev_price (current_best st) / income p > IB then NoOption else NoChange
          | Some i \<Rightarrow> Chosen i)"
    by (auto simp add: decision_tree_def split: option.splits if_splits)
  from evs False have mx: "running_max (map capacity ps) \<noteq> 0"
    and evs_eq: "evs = map (eval_plan (running_max (map capacity ps))) ps"
    by (auto simp add: Let_def split: if_splits)
  from evs_eq mx have all: "\<forall>new \<in> set evs. ev_value new \<le> 1
      \<and> (ev_mqm new = QNone \<or> ev_mqw new = QNone) \<and> ev_mqm new \<noteq> Dummy"
    by (auto simp add: eval_plan_value_le_one eval_plan_flags)
  from held_evaluation [OF ev] obtain x y where
    v: "ev_value cur = 1" and fx: "ev_mqm cur = Q x" and fy: "ev_mqw cur = Q y" by auto
  from tree_loop_keeps_complete_baseline [OF loop _ _ _ _ all, of x y] cheap v fx fy
  have "current_best st = cur \<and> current_best_index st = None" by simp
  with d over show ?thesis by simp
qed

text \<open>
  C5 (bundle precedence), as stated: with a non-empty list of complete bundles the
  result is never mobile-only or fixed-only. A household with income 500 on its initial
  call, a ceiling of one tenth and the single complete bundle of price 80 (16 percent of
  income) is given the mobile plan of price 30 alone. And a household that holds a mobile
  plan alone, with an income of 15000000000 and the single complete bundle of price
  1000000000 (under the ceiling of one tenth), keeps its mobile plan alone: the bundle is
  compared with the placeholder, whose price it does not undercut.
\<close>

theorem partial_selection_despite_complete_candidate:
  "decide_bundle sample_rnd (sample_person 500 (None, None))
      [(sample_mobile, sample_wifi_12)] [sample_mobile] [sample_wifi_12]
      (1/2) (1/2) (1/10) 7 True 0
   = Inr ((Some sample_mobile, None), 0)
   \<and> decide_bundle sample_rnd (sample_person 15000000000 (Some sample_mobile, None))
      [(sample_mobile, sample_wifi_12\<lparr>price := 999999970\<rparr>)] [sample_mobile] [sample_wifi_12]
      (1/2) (1/2) (1/10) 7 False 0
   = Inr ((Some sample_mobile, None), 0)
   \<and> (price sample_mobile + price (sample_wifi_12\<lparr>price := 999999970\<rparr>)) / 15000000000 < (1/10 :: real)"
  by (simp add: decision_defs sample_data_defs)

text \<open>
  C5, amended: for every call of decide_bundle by a household of positive income in which
  at least one complete-bundle candidate is priced under the ceiling
  (price / income < IncomeBudget) and under the placeholder's price of 1000000000, the
  returned selection is never mobile-only or fixed-only: it is a complete bundle or, only
  on a call that is not the initial one and with IncomeBudget below 0.05, no bundle at
  all.
\<close>

theorem complete_precedence:
  assumes db: "decide_bundle rnd p complete_bundles mobile_plans wifi_plans PrS PrP IB Seed ic c
                 = Inr (b, c')"
    and inc: "0 < income p"
    and aff: "\<exists>x \<in> set complete_bundles. (price (fst x) + price (snd x)) / income p < IB
                \<and> price (fst x) + price (snd x) < 1000000000"
  shows "(fst b \<noteq> None \<and> snd b \<noteq> None) \<or> (b = (None, None) \<and> \<not> ic \<and> IB < 5/100)"
proof -
  from db obtain d c1 where
    dt: "decision_tree rnd p (Complete complete_bundles) IB PrS PrP Seed ic c = Inr (d, c1)"
    by (auto simp add: decide_bundle_def split: sum.splits)
  from decision_tree_complete_candidate [OF dt inc aff] consider
    (chosen) i where "d = Chosen i"
  | (keep) m w where "d = NoChange" "current_bundle p = (Some m, Some w)"
  | (gap) m w cur where "\<not> ic" "d = NoOption" "current_bundle p = (Some m, Some w)"
      "map_sum id hd (create_bundle_eval_list (Complete [(m, w)])) = Inr cur"
      "IB < ev_price cur / income p" "ev_price cur / income p < 5/100"
    by blast
  then show ?thesis
  proof cases
    case chosen
    with db dt show ?thesis by (auto simp add: decide_bundle_def)
  next
    case keep
    from db dt keep(1) have "b = current_bundle p" by (simp add: decide_bundle_def)
    with keep(2) show ?thesis by simp
  next
    case gap
    from gap(1) have ic: "ic = False" by simp
    from db dt gap(2) obtain d2 c2 where
      dm: "decision_tree rnd p (Plans mobile_plans) IB PrS PrP Seed ic c1 = Inr (d2, c2)"
      by (auto simp add: decide_bundle_def split: sum.splits)
    from decision_tree_no_single_plan [OF dm [unfolded ic] gap(3) gap(4) gap(5) gap(6)]
    have d2: "d2 = NoOption" .
    from db dt gap(2) dm d2 obtain d3 c3 where
      dw: "decision_tree rnd p (Plans wifi_plans) IB PrS PrP Seed ic c2 = Inr (d3, c3)"
      by (auto simp add: decide_bundle_def split: sum.splits)
    from decision_tree_no_single_plan [OF dw [unfolded ic] gap(3) gap(4) gap(5) gap(6)]
    have d3: "d3 = NoOption" .
    from db dt gap(2) dm d2 dw d3 have "b = (None, None)" by (simp add: decide_bundle_def)
    moreover from gap(5) gap(6) have "IB < 5/100" by linarith
    ultimately show ?thesis using gap(1) by simp
  qed
qed

theorem complete_precedence_witness:
  "fst (fst (projr (decide_bundle sample_rnd (sample_person 1000 (None, None))
      [(sample_mobile, sample_wifi_12)] [sample_mobile] [sample_wifi_12]
      (1/2) (1/2) (1/10) 7 True 0))) \<noteq> None
   \<and> snd (fst (projr (decide_bundle sample_rnd (sample_person 1000 (None, None))
      [(sample_mobile, sample_wifi_12)] [sample_mobile] [sample_wifi_12]
      (1/2) (1/2) (1/10) 7 True 0))) \<noteq> None"
proof -
  have run: "decide_bundle sample_rnd (sample_person 1000 (None, None))
      [(sample_mobile, sample_wifi_12)] [sample_mobile] [sample_wifi_12]
      (1/2) (1/2) (1/10) 7 True 0 = Inr ((Some sample_mobile, Some sample_wifi_12), 0)"
    by (simp add: decision_defs sample_data_defs)
  have inc: "0 < income (sample_person 1000 (None, None))"
    by (simp add: sample_person_def)
  have aff: "\<exists>x \<in> set [(sample_mobile, sample_wifi_12)].
      (price (fst x) + price (snd x)) / income (sample_person 1000 (None, None)) < 1/10
      \<and> price (fst x) + price (snd x) < 1000000000"
    by (simp add: sample_data_defs)
  from complete_precedence [OF run inc aff] run show ?thesis by simp
qed

text \<open>
  C9 (cheap-bundle scenario), as stated: with income 3000, a ceiling of one tenth, no
  previous bundle and two complete bundles priced 80 and 140, the bundle of price 80 is
  chosen whatever the quality flags. When the bundle of price 140 has the faster wifi
  plan (50 Mbps against 12 Mbps, so only it meets the wifi minimum quality), it is the
  one chosen.
\<close>

theorem dearer_bundle_wins_on_quality:
  "decide_bundle sample_rnd (sample_person 3000 (None, None))
      [(sample_mobile, sample_wifi_12), (sample_mobile, sample_wifi_50)]
      [sample_mobile] [sample_wifi_12, sample_wifi_50]
      (1/2) (1/2) (1/10) 7 True 0
   = Inr ((Some sample_mobile, Some sample_wifi_50), 23)
   \<and> price sample_mobile + price sample_wifi_12 = 80
   \<and> price sample_mobile + price sample_wifi_50 = 140"
  by (simp add: decision_defs sample_data_defs)

text \<open>
  C9, amended: with income 3000, a ceiling of one tenth, the placeholder as baseline and
  exactly two complete bundles priced 80 and 140 (all capacities positive), the bundle of
  price 80 is chosen, in either order of the candidates and whatever the random draws,
  the probabilities and the value scores, provided it meets every minimum-quality
  threshold that the bundle of price 140 meets and at least one threshold itself.
\<close>

theorem cheap_bundle_scenario:
  assumes inc: "income p = 3000"
    and base: "ic \<or> fst (current_bundle p) = None \<or> snd (current_bundle p) = None"
    and p1: "price m1 + price w1 = 80" and p2: "price m2 + price w2 = 140"
    and caps: "0 < capacity m1" "0 < capacity w1" "0 < capacity m2" "0 < capacity w2"
    and qm: "capacity m2 > 61 \<longrightarrow> capacity m1 > 61"
    and qw: "capacity w2 > 25 \<longrightarrow> capacity w1 > 25"
    and some: "capacity m1 > 61 \<or> capacity w1 > 25"
  shows "decide_bundle rnd p [(m1, w1), (m2, w2)] mobile_plans wifi_plans PrS PrP (1/10) Seed ic c
           = Inr ((Some m1, Some w1), c + 23)
       \<and> decide_bundle rnd p [(m2, w2), (m1, w1)] mobile_plans wifi_plans PrS PrP (1/10) Seed ic c
           = Inr ((Some m1, Some w1), c + 23)"
proof -
  have mx: "max (capacity m1) (capacity m2) \<noteq> 0" "max (capacity w1) (capacity w2) \<noteq> 0"
    "max (capacity m2) (capacity m1) \<noteq> 0" "max (capacity w2) (capacity w1) \<noteq> 0"
    using caps by auto
  show ?thesis
    using qm qw some
    by (auto simp add: decide_bundle_def decision_tree_def initial_current_best_dummy [OF base]
        running_max_two caps mx inc Let_def eval_complete_def p1 p2 tree_step_def accept_def
        dummy_bundle_def new_is_a_cheaper_minimum_quality_def pick_cheaper_def)
qed

theorem cheap_bundle_scenario_witness:
  "decide_bundle sample_rnd (sample_person 3000 (None, None))
      [(sample_mobile, sample_wifi_50_budget), (sample_mobile, sample_wifi_50)]
      [sample_mobile] [sample_wifi_50_budget, sample_wifi_50] (1/2) (1/2) (1/10) 7 True 0
   = Inr ((Some sample_mobile, Some sample_wifi_50_budget), 23)
   \<and> decide_bundle sample_rnd (sample_person 3000 (None, None))
      [(sample_mobile, sample_wifi_50), (sample_mobile, sample_wifi_50_budget)]
      [sample_mobile] [sample_wifi_50_budget, sample_wifi_50] (1/2) (1/2) (1/10) 7 True 0
   = Inr ((Some sample_mobile, Some sample_wifi_50_budget), 23)"
  using cheap_bundle_scenario [of "sample_person 3000 (None, None)" True
      sample_mobile sample_wifi_50_budget sample_mobile sample_wifi_50
      sample_rnd "[sample_mobile]" "[sample_wifi_50_budget, sample_wifi_50]"
      "1/2" "1/2" 7 0]
  by (simp add: sample_data_defs)

subsection \<open>The market quadrant index\<close>

lemma remove_duplicates_of_filter:
  "i < j \<Longrightarrow> remove_duplicates_of i j quad
     = take j quad @ filter (\<lambda>x. x \<noteq> quad ! i) (drop j quad)"
proof (induction i j quad rule: remove_duplicates_of.induct)
  case (1 i j quad)
  show ?case
  proof (cases "j < length quad")
    case False
    then show ?thesis by (subst remove_duplicates_of.simps) simp
  next
    case True
    note j = this
    have dr: "drop j quad = quad ! j # drop (Suc j) quad"
      using j by (simp add: Cons_nth_drop_Suc)
    show ?thesis
    proof (cases "quad ! i = quad ! j")
      case True
      let ?q = "take j quad @ drop (Suc j) quad"
      from "1.prems" j have qi: "?q ! i = quad ! i" by (simp add: nth_append)
      from j have tk: "take j ?q = take j quad" by simp
      from j have dq: "drop j ?q = drop (Suc j) quad" by simp
      from "1.IH"(1) [OF j True "1.prems"] qi tk dq
      have "remove_duplicates_of i j ?q
              = take j quad @ filter (\<lambda>x. x \<noteq> quad ! i) (drop (Suc j) quad)" by simp
      with j True dr show ?thesis by (subst remove_duplicates_of.simps) simp
    next
      case False
      from "1.prems" have "i < Suc j" by simp
      from "1.IH"(2) [OF j False this]
      have "remove_duplicates_of i (Suc j) quad
              = take (Suc j) quad @ filter (\<lambda>x. x \<noteq> quad ! i) (drop (Suc j) quad)" .
      with j False dr show ?thesis
        by (subst remove_duplicates_of.simps) (simp add: take_Suc_conv_app_nth)
    qed
  qed
qed

lemma remove_duplicates_distinct_set:
  "i \<le> length quad \<Longrightarrow> distinct (take i quad) \<Longrightarrow>
   set (take i quad) \<inter> set (drop i quad) = {} \<Longrightarrow>
   distinct (remove_duplicates i quad) \<and> set (remove_duplicates i quad) = set quad"
proof (induction i quad rule: remove_duplicates.induct)
  case (1 i quad)
  show ?case
  proof (cases "i < length quad")
    case False
    with "1.prems" have "take i quad = quad" by simp
    with "1.prems" False show ?thesis by (subst (1 2) remove_duplicates.simps) simp
  next
    case True
    let ?x = "quad ! i"
    let ?q = "remove_duplicates_of i (Suc i) quad"
    have q: "?q = take (Suc i) quad @ filter (\<lambda>y. y \<noteq> ?x) (drop (Suc i) quad)"
      by (simp add: remove_duplicates_of_filter)
    from True have tk: "take (Suc i) quad = take i quad @ [?x]"
      by (simp add: take_Suc_conv_app_nth)
    from True have dr: "drop i quad = ?x # drop (Suc i) quad"
      by (simp add: Cons_nth_drop_Suc)
    from True have len: "length (take (Suc i) quad) = Suc i" by simp
    have tq: "take (Suc i) ?q = take (Suc i) quad" using len by (simp add: q)
    have dq: "drop (Suc i) ?q = filter (\<lambda>y. y \<noteq> ?x) (drop (Suc i) quad)"
      using len by (simp add: q)
    from "1.prems"(3) dr have xn: "?x \<notin> set (take i quad)" by auto
    have a: "Suc i \<le> length ?q" using len by (simp add: q)
    have b: "distinct (take (Suc i) ?q)" using "1.prems"(2) xn by (simp add: tq tk)
    have c: "set (take (Suc i) ?q) \<inter> set (drop (Suc i) ?q) = {}"
      using "1.prems"(3) dr by (auto simp add: tq dq tk)
    from "1.IH" [OF True a b c]
    have ih: "distinct (remove_duplicates (Suc i) ?q)"
      "set (remove_duplicates (Suc i) ?q) = set ?q" by simp_all
    have "set ?q = set quad"
    proof -
      have "set ?q = set (take (Suc i) quad) \<union> {y \<in> set (drop (Suc i) quad). y \<noteq> ?x}"
        by (simp add: q)
      also have "\<dots> = set (take i quad) \<union> set (drop i quad)"
        by (auto simp add: tk dr)
      also have "\<dots> = set quad" by (metis append_take_drop_id set_append)
      finally show ?thesis .
    qed
    with ih True show ?thesis by (subst (1 2) remove_duplicates.simps) simp
  qed
qed

lemma remove_duplicates_0:
  "distinct (remove_duplicates 0 quad) \<and> set (remove_duplicates 0 quad) = set quad"
  by (rule remove_duplicates_distinct_set) simp_all

lemma remove_operator_remove1: "remove_operator firm xs = remove1 firm xs"
  by (induction xs) auto

lemma define_ISPs_per_location_distinct:
  "define_ISPs_per_location ISPs = Inr ols \<Longrightarrow> all_distinct ols"
  by (cases "collect_locations 0 ISPs [[], [], [], []]")
     (auto simp add: define_ISPs_per_location_def all_distinct_def list_all_iff
        remove_duplicates_0)

lemma bankruptcy_step_length:
  "length (bankruptcy_step ISPs firm ols) = length ols"
  by (simp add: bankruptcy_step_def)

lemma bankruptcy_step_subset:
  "quad < length ols \<Longrightarrow> set (bankruptcy_step ISPs firm ols ! quad) \<subseteq> set (ols ! quad)"
  using set_remove1_subset [of firm "ols ! quad"]
  by (auto simp add: bankruptcy_step_def remove_operator_remove1)

lemma bankruptcy_step_distinct:
  "all_distinct ols \<Longrightarrow> all_distinct (bankruptcy_step ISPs firm ols)"
  by (auto simp add: bankruptcy_step_def all_distinct_def list_all_iff remove_operator_remove1)

lemma bankruptcy_step_removes:
  "all_distinct ols \<Longrightarrow> moneypool (ISPs ! firm) \<le> 0 \<Longrightarrow> quad < length ols \<Longrightarrow>
   firm \<notin> set (bankruptcy_step ISPs firm ols ! quad)"
  by (auto simp add: bankruptcy_step_def all_distinct_def list_all_iff remove_operator_remove1)

lemma fold_step_length:
  "length (fold (bankruptcy_step ISPs) firms ols) = length ols"
  by (induction firms arbitrary: ols) (auto simp add: bankruptcy_step_length)

lemma fold_step_subset:
  "quad < length ols \<Longrightarrow>
   set (fold (bankruptcy_step ISPs) firms ols ! quad) \<subseteq> set (ols ! quad)"
proof (induction firms arbitrary: ols)
  case Nil
  then show ?case by simp
next
  case (Cons firm firms)
  from Cons.prems have "quad < length (bankruptcy_step ISPs firm ols)"
    by (simp add: bankruptcy_step_length)
  from Cons.IH [OF this] bankruptcy_step_subset [OF Cons.prems, of ISPs firm]
  show ?case by auto
qed

lemma fold_step_distinct:
  "all_distinct ols \<Longrightarrow> all_distinct (fold (bankruptcy_step ISPs) firms ols)"
  by (induction firms arbitrary: ols) (auto simp add: bankruptcy_step_distinct)

lemma fold_step_removes:
  "all_distinct ols \<Longrightarrow> firm \<in> set firms \<Longrightarrow> moneypool (ISPs ! firm) \<le> 0 \<Longrightarrow>
   quad < length ols \<Longrightarrow> firm \<notin> set (fold (bankruptcy_step ISPs) firms ols ! quad)"
proof (induction firms arbitrary: ols)
  case Nil
  then show ?case by simp
next
  case (Cons f firms)
  let ?ols = "bankruptcy_step ISPs f ols"
  have d: "all_distinct ?ols" using Cons.prems(1) by (rule bankruptcy_step_distinct)
  have q: "quad < length ?ols" using Cons.prems(4) by (simp add: bankruptcy_step_length)
  show ?case
  proof (cases "f = firm")
    case True
    from bankruptcy_step_removes [OF Cons.prems(1) Cons.prems(3) Cons.prems(4)] True
    have "firm \<notin> set (?ols ! quad)" by simp
    with fold_step_subset [OF q, of ISPs firms] True show ?thesis by auto
  next
    case False
    with Cons.prems(2) have "firm \<in> set firms" by simp
    from Cons.IH [OF d this Cons.prems(3) q] show ?thesis by simp
  qed
qed

lemma check_for_bankruptcy_length:
  "length (check_for_bankruptcy ISPs ols) = length ols"
  by (simp add: check_for_bankruptcy_def fold_step_length)

lemma check_for_bankruptcy_subset:
  "quad < length ols \<Longrightarrow> set (check_for_bankruptcy ISPs ols ! quad) \<subseteq> set (ols ! quad)"
  by (simp add: check_for_bankruptcy_def fold_step_subset)

lemma check_for_bankruptcy_distinct:
  "all_distinct ols \<Longrightarrow> all_distinct (check_for_bankruptcy ISPs ols)"
  by (simp add: check_for_bankruptcy_def fold_step_distinct)

lemma check_for_bankruptcy_removes:
  "all_distinct ols \<Longrightarrow> firm < length ISPs \<Longrightarrow> moneypool (ISPs ! firm) \<le> 0 \<Longrightarrow>
   quad < length ols \<Longrightarrow> firm \<notin> set (check_for_bankruptcy ISPs ols ! quad)"
  by (simp add: check_for_bankruptcy_def fold_step_removes)

lemma bankruptcy_checks_length:
  "length (bankruptcy_checks months ols) = length ols"
  by (induction months arbitrary: ols)
     (auto simp add: bankruptcy_checks_def check_for_bankruptcy_length)

lemma bankruptcy_checks_subset:
  "quad < length ols \<Longrightarrow> set (bankruptcy_checks months ols ! quad) \<subseteq> set (ols ! quad)"
proof (induction months arbitrary: ols)
  case Nil
  then show ?case by (simp add: bankruptcy_checks_def)
next
  case (Cons ISPs months)
  from Cons.prems have "quad < length (check_for_bankruptcy ISPs ols)"
    by (simp add: check_for_bankruptcy_length)
  from Cons.IH [OF this] check_for_bankruptcy_subset [OF Cons.prems, of ISPs]
  show ?case by (auto simp add: bankruptcy_checks_def)
qed

lemma bankruptcy_checks_distinct:
  "all_distinct ols \<Longrightarrow> all_distinct (bankruptcy_checks months ols)"
  by (induction months arbitrary: ols)
     (auto simp add: bankruptcy_checks_def check_for_bankruptcy_distinct)

text \<open>
  C3 (bankruptcy is monotone). The quadrant index is built by
  \<^verbatim>\<open>define_ISPs_per_location\<close>, whose lists hold no index twice, so the removal of the
  first occurrence removes the firm; later checks only delete. For every run of monthly
  checks, a firm whose moneypool is at most 0 at one of them is in no quadrant list after
  that check, whatever the firms' states at the later checks (also when its moneypool
  has become positive again).
\<close>

theorem bankruptcy_monotone:
  assumes init: "define_ISPs_per_location ISPs0 = Inr ols0"
    and firm: "firm < length ISPs" and broke: "moneypool (ISPs ! firm) \<le> 0"
    and quad: "quad < length ols0"
  shows "firm \<notin> set (bankruptcy_checks (earlier @ [ISPs] @ later) ols0 ! quad)"
proof -
  let ?before = "bankruptcy_checks earlier ols0"
  let ?at = "check_for_bankruptcy ISPs ?before"
  have d: "all_distinct ?before"
    using define_ISPs_per_location_distinct [OF init] by (rule bankruptcy_checks_distinct)
  have q: "quad < length ?before" using quad by (simp add: bankruptcy_checks_length)
  have gone: "firm \<notin> set (?at ! quad)"
    using d firm broke q by (rule check_for_bankruptcy_removes)
  have q2: "quad < length ?at" using q by (simp add: check_for_bankruptcy_length)
  have "bankruptcy_checks (earlier @ [ISPs] @ later) ols0 = bankruptcy_checks later ?at"
    by (simp add: bankruptcy_checks_def)
  with bankruptcy_checks_subset [OF q2, of later] gone show ?thesis by auto
qed

lemma sample_market_locations:
  "define_ISPs_per_location (sample_market 100) = Inr [[0, 1], [0, 1], [0, 1], [0]]"
  by code_simp

theorem bankruptcy_monotone_witness:
  "1 \<notin> set (bankruptcy_checks ([sample_market 100] @ [sample_market (-10)] @ [sample_market 20])
            [[0, 1], [0, 1], [0, 1], [0]] ! 0)"
proof -
  have a: "(1::nat) < length (sample_market (-10))" by (simp add: sample_market_def)
  have b: "moneypool (sample_market (-10) ! 1) \<le> 0"
    by (simp add: sample_market_def sample_isp_def)
  have c: "(0::nat) < length [[0, 1], [0, 1], [0, 1], [0::nat]]" by simp
  from bankruptcy_monotone [OF sample_market_locations a b c] show ?thesis .
qed

subsection \<open>The probability vector\<close>

lemma shave_pass_large:
  "amount_over > 1/1000 \<Longrightarrow> \<exists>l. shave_pass ps amount_over = Fell_through l"
proof (induction ps)
  case Nil
  then show ?case by simp
next
  case (Cons p ps)
  then obtain l where "shave_pass ps amount_over = Fell_through l" by auto
  with Cons.prems show ?case by simp
qed

lemma shave_loop_returns_small:
  assumes "shave_loop ps amount_over = Some y"
  shows "amount_over \<le> 1/1000"
  using assms
proof (rule shave_loop.raw_induct [rotated])
  fix f :: "real list \<Rightarrow> real \<Rightarrow> real list option option"
    and qs :: "real list" and over :: real and r :: "real list option"
  assume IH: "\<And>a b z. f a b = Some z \<Longrightarrow> b \<le> 1/1000"
    and eq: "(if 0 < over
              then case shave_pass qs over of
                     Returned r \<Rightarrow> Some (Some r)
                   | Fell_through probs' \<Rightarrow> f probs' over
              else Some None) = Some r"
  show "over \<le> 1/1000"
  proof (rule ccontr)
    assume "\<not> over \<le> 1/1000"
    then have big: "over > 1/1000" by simp
    then obtain l where "shave_pass qs over = Fell_through l"
      using shave_pass_large by blast
    with eq big have "f l over = Some r" by (simp split: if_splits)
    from IH [OF this] big show False by simp
  qed
qed

lemma shave_loop_diverges: "amount_over > 1/1000 \<Longrightarrow> shave_loop ps amount_over = None"
  using shave_loop_returns_small [of ps amount_over] by (cases "shave_loop ps amount_over") auto

lemma shave_pass_returned_sum:
  "amount_over \<le> 1/1000 \<Longrightarrow> shave_pass ps amount_over = Returned r \<Longrightarrow>
   sum_list r = sum_list ps - amount_over"
proof (induction ps arbitrary: r)
  case Nil
  then show ?case by simp
next
  case (Cons p ps)
  show ?case
  proof (cases "p > 1/1000")
    case True
    with Cons.prems show ?thesis by auto
  next
    case False
    with Cons.prems obtain r' where r': "shave_pass ps amount_over = Returned r'" "r = p # r'"
      by (cases "shave_pass ps amount_over") auto
    from Cons.IH [OF Cons.prems(1) r'(1)] r'(2) show ?thesis by simp
  qed
qed

lemma shave_pass_fell_through:
  "amount_over \<le> 1/1000 \<Longrightarrow> shave_pass ps amount_over = Fell_through l \<Longrightarrow> l = ps"
proof (induction ps arbitrary: l)
  case Nil
  then show ?case by simp
next
  case (Cons p ps)
  show ?case
  proof (cases "p > 1/1000")
    case True
    with Cons.prems show ?thesis by auto
  next
    case False
    with Cons.prems obtain l' where l': "shave_pass ps amount_over = Fell_through l'" "l = p # l'"
      by (cases "shave_pass ps amount_over") auto
    from Cons.IH [OF Cons.prems(1) l'(1)] l'(2) show ?thesis by simp
  qed
qed

lemma shave_loop_result:
  assumes "shave_loop ps amount_over = Some y"
  shows "amount_over \<le> 1/1000
       \<and> (amount_over > 0 \<longrightarrow> (\<exists>r. y = Some r \<and> sum_list r = sum_list ps - amount_over))"
  using assms
proof (rule shave_loop.raw_induct [rotated])
  fix f :: "real list \<Rightarrow> real \<Rightarrow> real list option option"
    and qs :: "real list" and over :: real and z :: "real list option"
  assume IH: "\<And>a b z. f a b = Some z \<Longrightarrow>
                 b \<le> 1/1000 \<and> (b > 0 \<longrightarrow> (\<exists>r. z = Some r \<and> sum_list r = sum_list a - b))"
    and eq: "(if 0 < over
              then case shave_pass qs over of
                     Returned r \<Rightarrow> Some (Some r)
                   | Fell_through probs' \<Rightarrow> f probs' over
              else Some None) = Some z"
  have small: "over \<le> 1/1000"
  proof (rule ccontr)
    assume "\<not> over \<le> 1/1000"
    then have big: "over > 1/1000" by simp
    then obtain l where "shave_pass qs over = Fell_through l"
      using shave_pass_large by blast
    with eq big have "f l over = Some z" by (simp split: if_splits)
    from IH [OF this] big show False by simp
  qed
  have "\<exists>r. z = Some r \<and> sum_list r = sum_list qs - over" if pos: "over > 0"
  proof (cases "shave_pass qs over")
    case (Returned r)
    with eq pos have "z = Some r" by simp
    with shave_pass_returned_sum [OF small Returned] show ?thesis by simp
  next
    case (Fell_through l)
    with eq pos have fl: "f l over = Some z" by simp
    from shave_pass_fell_through [OF small Fell_through] have "l = qs" .
    with IH [OF fl] pos show ?thesis by simp
  qed
  with small show "over \<le> 1/1000
       \<and> (over > 0 \<longrightarrow> (\<exists>r. z = Some r \<and> sum_list r = sum_list qs - over))" by simp
qed

lemma sum_list_update_real:
  "k < length xs \<Longrightarrow> sum_list (xs[k := (xs ! k + d :: real)]) = sum_list xs + d"
proof (induction xs arbitrary: k)
  case Nil
  then show ?case by simp
next
  case (Cons x xs)
  then show ?case by (cases k) auto
qed

lemma ensure_adds_to_1_sum:
  assumes "ensure_adds_to_1 rnd_int probs_array Seed seed_counter = Some (Inr (v, c'))"
  shows "\<exists>r. v = Some r \<and> sum_list r = 1"
proof -
  let ?total = "sum_list probs_array"
  consider (one) "?total = 1" | (under) "?total < 1" | (over) "?total > 1" by linarith
  then show ?thesis
  proof cases
    case one
    with assms show ?thesis by (auto simp add: ensure_adds_to_1_def)
  next
    case under
    with assms have ne: "probs_array \<noteq> []"
      by (auto simp add: ensure_adds_to_1_def Let_def split: if_splits)
    let ?k = "rnd_int (Seed + seed_counter) (length probs_array) mod length probs_array"
    from ne have k: "?k < length probs_array" by simp
    from assms under ne have "v = Some (probs_array[?k := probs_array ! ?k + (1 - ?total)])"
      by (auto simp add: ensure_adds_to_1_def Let_def)
    with sum_list_update_real [OF k, of "1 - ?total"] show ?thesis by simp
  next
    case over
    with assms obtain y where y: "shave_loop probs_array (?total - 1) = Some y" "v = y"
      by (auto simp add: ensure_adds_to_1_def Let_def)
    from shave_loop_result [OF y(1)] over y(2)
    show ?thesis by auto
  qed
qed

lemma sum_list_divide: "sum_list (map (\<lambda>b. b / t) bs) = sum_list bs / (t::real)"
  by (induction bs) (simp_all add: add_divide_distrib)

lemma effective_marketing_sum:
  "effective_marketing bs = Inr pr \<Longrightarrow> bs \<noteq> [] \<Longrightarrow> sum_list pr = 1 \<and> length pr = length bs"
  by (auto simp add: effective_marketing_def Let_def sum_list_divide split: if_splits)

lemma ensure_adds_to_1_normalised:
  "effective_marketing bs = Inr pr \<Longrightarrow> bs \<noteq> [] \<Longrightarrow>
   ensure_adds_to_1 rnd_int pr Seed c = Some (Inr (Some pr, c))"
  using effective_marketing_sum [of bs pr] by (simp add: ensure_adds_to_1_def)

lemma ensure_adds_to_1_empty:
  "ensure_adds_to_1 rnd_int [] Seed c = Some (Inl ValueError)"
  by (simp add: ensure_adds_to_1_def)

text \<open>
  The loop of \<^verbatim>\<open>ensure_adds_to_1\<close> on its own: for the vector \<open>[0.6, 0.6]\<close> the excess
  is 0.2, each pass takes 0.001 off every entry above 0.001 and leaves \<^verbatim>\<open>amount_over\<close>
  as it was, and the function never returns. \<^verbatim>\<open>pick_operators\<close>, its only caller, never
  passes such a vector: see below.
\<close>

lemma ensure_adds_to_1_loops_on_large_excess:
  "ensure_adds_to_1 rnd_int [3/5, 3/5] Seed seed_counter = None"
  by (simp add: ensure_adds_to_1_def shave_loop_diverges)

text \<open>
  For a vector whose total is at most 1.001, and that has an entry above 0.001 when the
  total is over 1, \<^verbatim>\<open>ensure_adds_to_1\<close> returns a vector of sum 1.
\<close>

lemma shave_pass_returns:
  "amount_over \<le> 1/1000 \<Longrightarrow> list_ex (\<lambda>p. p > 1/1000) ps \<Longrightarrow>
   \<exists>r. shave_pass ps amount_over = Returned r"
proof (induction ps)
  case Nil
  then show ?case by simp
next
  case (Cons p ps)
  show ?case
  proof (cases "p > 1/1000")
    case True
    with Cons.prems show ?thesis by simp
  next
    case False
    with Cons.prems have "list_ex (\<lambda>p. p > 1/1000) ps" by simp
    from Cons.IH [OF Cons.prems(1) this] obtain r where "shave_pass ps amount_over = Returned r"
      by blast
    with False show ?thesis by simp
  qed
qed

lemma ensure_adds_to_1_returns:
  assumes ne: "probs_array \<noteq> []" and near: "sum_list probs_array \<le> 1 + 1/1000"
    and entry: "1 < sum_list probs_array \<longrightarrow> list_ex (\<lambda>p. p > 1/1000) probs_array"
  shows "\<exists>r c'. ensure_adds_to_1 rnd_int probs_array Seed seed_counter = Some (Inr (Some r, c'))
           \<and> sum_list r = 1"
proof -
  have "\<exists>v c'. ensure_adds_to_1 rnd_int probs_array Seed seed_counter = Some (Inr (v, c'))"
  proof (cases "1 < sum_list probs_array")
    case False
    with ne show ?thesis by (auto simp add: ensure_adds_to_1_def Let_def)
  next
    case True
    with entry near have "sum_list probs_array - 1 \<le> 1/1000"
      and "list_ex (\<lambda>p. p > 1/1000) probs_array" by simp_all
    from shave_pass_returns [OF this] obtain r where
      "shave_pass probs_array (sum_list probs_array - 1) = Returned r" by blast
    with True have "shave_loop probs_array (sum_list probs_array - 1) = Some (Some r)"
      by (subst shave_loop.simps) simp
    with True show ?thesis by (simp add: ensure_adds_to_1_def Let_def)
  qed
  then obtain v c' where
    e: "ensure_adds_to_1 rnd_int probs_array Seed seed_counter = Some (Inr (v, c'))" by blast
  from ensure_adds_to_1_sum [OF e] e show ?thesis by auto
qed




subsection \<open>Price experiments\<close>





subsection \<open>The draws\<close>

text \<open>
  With at least one candidate, every candidate in order and every weight positive, each
  pass of the main loop takes one candidate away and one off the time budget, each pass
  of a balancing loop takes one candidate away, and \<^verbatim>\<open>pick_operators\<close> returns its two
  lists.
\<close>

lemma slice_out_length: "choice < length xs \<Longrightarrow> length (slice_out choice xs) = length xs - 1"
  by (simp add: slice_out_def)

lemma slice_out_all: "list_all P xs \<Longrightarrow> list_all P (slice_out choice xs)"
  by (auto simp add: slice_out_def list_all_iff dest: in_set_takeD in_set_dropD)

lemma positive_sum: "list_all (\<lambda>w. 0 < w) ws \<Longrightarrow> ws \<noteq> [] \<Longrightarrow> 0 < sum_list (ws :: real list)"
proof (induction ws)
  case Nil
  then show ?case by simp
next
  case (Cons a ws)
  show ?case
  proof (cases "ws = []")
    case True
    with Cons.prems show ?thesis by simp
  next
    case False
    with Cons have "0 < sum_list ws" by simp
    moreover from Cons.prems have "0 < a" by simp
    ultimately show ?thesis by (simp add: add_pos_pos)
  qed
qed

lemma renormalise_positive:
  assumes "list_all (\<lambda>w. 0 < w) ws"
  shows "\<exists>pr. renormalise ws = Inr pr \<and> length pr = length ws \<and> list_all (\<lambda>w. 0 < w) pr"
proof (cases "ws = []")
  case True
  then show ?thesis by (simp add: renormalise_def)
next
  case False
  with assms have s: "0 < sum_list ws" by (rule_tac positive_sum)
  with assms show ?thesis by (auto simp add: renormalise_def Let_def list_all_iff)
qed

lemma draw_operator_returns:
  assumes inv: "sampling_invariant ISPs quad st" and ne: "ps_choices st \<noteq> []"
  shows "\<exists>choice. choice < length (ps_choices st)
           \<and> candidate_ok ISPs quad (ps_choices st ! choice)
           \<and> draw_operator rnd_choices Seed ISPs st = Inr (choice, ISPs ! (ps_choices st ! choice))"
proof -
  let ?n = "length (ps_choices st)"
  let ?choice = "rnd_choices (Seed + ps_counter st) (ps_weights st) mod ?n"
  from ne have n: "0 < ?n" by simp
  then have lt: "?choice < ?n" by simp
  from inv ne have w: "ps_weights st \<noteq> []" "length (ps_weights st) = ?n"
    by (auto simp add: sampling_invariant_def)
  from inv w have "0 < sum_list (ps_weights st)"
    by (auto simp add: sampling_invariant_def intro: positive_sum)
  with w have r: "random_choices rnd_choices (Seed + ps_counter st) ?n (ps_weights st) = Inr ?choice"
    by (simp add: random_choices_def)
  from inv lt have ok: "candidate_ok ISPs quad (ps_choices st ! ?choice)"
    by (simp add: sampling_invariant_def list_all_length)
  then have "ps_choices st ! ?choice < length ISPs" by (simp add: candidate_ok_def)
  with r have "draw_operator rnd_choices Seed ISPs st = Inr (?choice, ISPs ! (ps_choices st ! ?choice))"
    by (simp add: draw_operator_def Let_def)
  with lt ok show ?thesis by blast
qed

lemma discard_choice_returns:
  assumes inv: "sampling_invariant ISPs quad st" and lt: "choice < length (ps_choices st)"
  shows "\<exists>st'. discard_choice choice st = Inr st' \<and> sampling_invariant ISPs quad st'
           \<and> length (ps_choices st') = length (ps_choices st) - 1
           \<and> ps_mobile st' = ps_mobile st \<and> ps_wifi st' = ps_wifi st
           \<and> ps_counter st' = ps_counter st + 23"
proof -
  from inv have "list_all (\<lambda>w. 0 < w) (slice_out choice (ps_weights st))"
    by (simp add: sampling_invariant_def slice_out_all)
  from renormalise_positive [OF this] obtain pr where
      pr: "renormalise (slice_out choice (ps_weights st)) = Inr pr"
      and len: "length pr = length (slice_out choice (ps_weights st))"
      and pos: "list_all (\<lambda>w. 0 < w) pr" by blast
  from inv lt have "length pr = length (slice_out choice (ps_choices st))"
    by (simp add: len sampling_invariant_def slice_out_length)
  with pr pos inv lt show ?thesis
    by (simp add: discard_choice_def sampling_invariant_def slice_out_all slice_out_length)
qed

lemma in_locations_located:
  "located i \<Longrightarrow>
   in_locations (mobile_offered i) (mobile_locations i) quad
     = Inr (covers (mobile_offered i) (mobile_locations i) quad)
   \<and> in_locations (wifi_offered i) (wifi_locations i) quad
     = Inr (covers (wifi_offered i) (wifi_locations i) quad)"
  by (auto simp add: located_def in_locations_def covers_def split: option.splits)

lemma sampling_invariant_lists:
  "sampling_invariant ISPs quad (st\<lparr>ps_mobile := m, ps_wifi := w\<rparr>) = sampling_invariant ISPs quad st"
  "sampling_invariant ISPs quad (st\<lparr>ps_mobile := m\<rparr>) = sampling_invariant ISPs quad st"
  "sampling_invariant ISPs quad (st\<lparr>ps_wifi := w\<rparr>) = sampling_invariant ISPs quad st"
  by (simp_all add: sampling_invariant_def)

lemma main_step_returns:
  assumes inv: "sampling_invariant ISPs quad st" and ne: "ps_choices st \<noteq> []"
  shows "\<exists>st'. main_step rnd_choices Seed ISPs quad TimeBudget st = Inr (TimeBudget - 1, st')
           \<and> sampling_invariant ISPs quad st'
           \<and> length (ps_choices st') = length (ps_choices st) - 1"
proof -
  from draw_operator_returns [OF inv ne, of rnd_choices Seed] obtain choice where
      lt: "choice < length (ps_choices st)"
      and ok: "candidate_ok ISPs quad (ps_choices st ! choice)"
      and d: "draw_operator rnd_choices Seed ISPs st = Inr (choice, ISPs ! (ps_choices st ! choice))"
    by blast
  let ?op = "ISPs ! (ps_choices st ! choice)"
  from ok have loc: "located ?op"
      and cov: "covers (mobile_offered ?op) (mobile_locations ?op) quad
                \<or> covers (wifi_offered ?op) (wifi_locations ?op) quad"
    by (simp_all add: candidate_ok_def)
  from discard_choice_returns [OF inv lt] obtain st' where
      dc: "discard_choice choice st = Inr st'" and inv': "sampling_invariant ISPs quad st'"
      and len: "length (ps_choices st') = length (ps_choices st) - 1" by blast
  from d dc cov inv' len in_locations_located [OF loc, of quad] show ?thesis
    by (auto simp add: main_step_def sampling_invariant_lists)
qed

lemma main_loop_returns:
  assumes "sampling_invariant ISPs quad st" and "TimeBudget \<le> int (length (ps_choices st))"
  shows "\<exists>st'. main_loop rnd_choices Seed ISPs quad TimeBudget st = Inr st'
           \<and> sampling_invariant ISPs quad st'
           \<and> int (length (ps_choices st')) = int (length (ps_choices st)) - max TimeBudget 0"
  using assms
proof (induction "nat TimeBudget" arbitrary: TimeBudget st)
  case 0
  then have "\<not> TimeBudget > 0" by simp
  with 0 show ?case by (subst main_loop.simps) simp
next
  case (Suc n)
  then have pos: "TimeBudget > 0" by simp
  with Suc.prems have ne: "ps_choices st \<noteq> []" by auto
  from main_step_returns [OF Suc.prems(1) ne, of rnd_choices Seed TimeBudget] obtain st1 where
      s: "main_step rnd_choices Seed ISPs quad TimeBudget st = Inr (TimeBudget - 1, st1)"
      and inv1: "sampling_invariant ISPs quad st1"
      and len: "length (ps_choices st1) = length (ps_choices st) - 1" by blast
  from Suc.hyps(2) have n: "n = nat (TimeBudget - 1)" by simp
  from Suc.prems(2) pos len have le: "TimeBudget - 1 \<le> int (length (ps_choices st1))" by simp
  from Suc.hyps(1) [OF n inv1 le] obtain st' where
      l: "main_loop rnd_choices Seed ISPs quad (TimeBudget - 1) st1 = Inr st'"
      and inv': "sampling_invariant ISPs quad st'"
      and len': "int (length (ps_choices st')) = int (length (ps_choices st1)) - max (TimeBudget - 1) 0"
    by blast
  from pos s l have "main_loop rnd_choices Seed ISPs quad TimeBudget st = Inr st'"
    by (subst main_loop.simps) simp
  moreover from len len' pos ne have
    "int (length (ps_choices st')) = int (length (ps_choices st)) - max TimeBudget 0"
    by (cases "ps_choices st") auto
  ultimately show ?case using inv' by blast
qed

lemma wifi_step_returns:
  assumes inv: "sampling_invariant ISPs quad st" and ne: "ps_choices st \<noteq> []"
  shows "\<exists>st'. wifi_step rnd_choices Seed ISPs quad st = Inr st'
           \<and> sampling_invariant ISPs quad st'
           \<and> length (ps_choices st') = length (ps_choices st) - 1"
proof -
  from draw_operator_returns [OF inv ne, of rnd_choices Seed] obtain choice where
      lt: "choice < length (ps_choices st)"
      and ok: "candidate_ok ISPs quad (ps_choices st ! choice)"
      and d: "draw_operator rnd_choices Seed ISPs st = Inr (choice, ISPs ! (ps_choices st ! choice))"
    by blast
  from ok have loc: "located (ISPs ! (ps_choices st ! choice))" by (simp add: candidate_ok_def)
  from discard_choice_returns [OF inv lt] obtain st' where
      dc: "discard_choice choice st = Inr st'" and inv': "sampling_invariant ISPs quad st'"
      and len: "length (ps_choices st') = length (ps_choices st) - 1" by blast
  from d dc inv' len in_locations_located [OF loc, of quad] show ?thesis
    by (auto simp add: wifi_step_def sampling_invariant_lists)
qed

lemma mobile_step_returns:
  assumes inv: "sampling_invariant ISPs quad st" and ne: "ps_choices st \<noteq> []"
  shows "\<exists>st'. mobile_step rnd_choices Seed ISPs quad st = Inr st'
           \<and> sampling_invariant ISPs quad st'
           \<and> length (ps_choices st') = length (ps_choices st) - 1"
proof -
  from draw_operator_returns [OF inv ne, of rnd_choices Seed] obtain choice where
      lt: "choice < length (ps_choices st)"
      and ok: "candidate_ok ISPs quad (ps_choices st ! choice)"
      and d: "draw_operator rnd_choices Seed ISPs st = Inr (choice, ISPs ! (ps_choices st ! choice))"
    by blast
  from ok have loc: "located (ISPs ! (ps_choices st ! choice))" by (simp add: candidate_ok_def)
  from discard_choice_returns [OF inv lt] obtain st' where
      dc: "discard_choice choice st = Inr st'" and inv': "sampling_invariant ISPs quad st'"
      and len: "length (ps_choices st') = length (ps_choices st) - 1" by blast
  from d dc inv' len in_locations_located [OF loc, of quad] show ?thesis
    by (auto simp add: mobile_step_def sampling_invariant_lists)
qed

lemma wifi_loop_returns:
  "sampling_invariant ISPs quad st \<Longrightarrow>
   \<exists>st'. wifi_loop rnd_choices Seed ISPs quad st = Inr st' \<and> sampling_invariant ISPs quad st'"
proof (induction "length (ps_choices st)" arbitrary: st rule: less_induct)
  case less
  show ?case
  proof (cases "length (ps_choices st) > 0 \<and> length (ps_mobile st) > length (ps_wifi st)")
    case False
    with less.prems show ?thesis by (subst wifi_loop.simps) auto
  next
    case True
    then have ne: "ps_choices st \<noteq> []" by auto
    from wifi_step_returns [OF less.prems ne, of rnd_choices Seed] obtain st1 where
        s: "wifi_step rnd_choices Seed ISPs quad st = Inr st1"
        and inv1: "sampling_invariant ISPs quad st1"
        and len: "length (ps_choices st1) = length (ps_choices st) - 1" by blast
    from len True have "length (ps_choices st1) < length (ps_choices st)" by simp
    from less.hyps [OF this inv1] obtain st' where
        "wifi_loop rnd_choices Seed ISPs quad st1 = Inr st'" "sampling_invariant ISPs quad st'"
      by blast
    with True s show ?thesis by (subst wifi_loop.simps) simp
  qed
qed

lemma mobile_loop_returns:
  "sampling_invariant ISPs quad st \<Longrightarrow>
   \<exists>st'. mobile_loop rnd_choices Seed ISPs quad st = Inr st' \<and> sampling_invariant ISPs quad st'"
proof (induction "length (ps_choices st)" arbitrary: st rule: less_induct)
  case less
  show ?case
  proof (cases "length (ps_choices st) > 0 \<and> length (ps_mobile st) < length (ps_wifi st)")
    case False
    with less.prems show ?thesis by (subst mobile_loop.simps) auto
  next
    case True
    then have ne: "ps_choices st \<noteq> []" by auto
    from mobile_step_returns [OF less.prems ne, of rnd_choices Seed] obtain st1 where
        s: "mobile_step rnd_choices Seed ISPs quad st = Inr st1"
        and inv1: "sampling_invariant ISPs quad st1"
        and len: "length (ps_choices st1) = length (ps_choices st) - 1" by blast
    from len True have "length (ps_choices st1) < length (ps_choices st)" by simp
    from less.hyps [OF this inv1] obtain st' where
        "mobile_loop rnd_choices Seed ISPs quad st1 = Inr st'" "sampling_invariant ISPs quad st'"
      by blast
    with True s show ?thesis by (subst mobile_loop.simps) simp
  qed
qed

lemma balance_returns:
  assumes "sampling_invariant ISPs quad st"
  shows "\<exists>r. balance rnd_choices Seed ISPs quad st = Inr r"
proof -
  from wifi_loop_returns [OF assms, of rnd_choices Seed] obtain st1 where
      w: "wifi_loop rnd_choices Seed ISPs quad st = Inr st1"
      and inv1: "sampling_invariant ISPs quad st1" by blast
  from mobile_loop_returns [OF inv1, of rnd_choices Seed] obtain st2 where
      "mobile_loop rnd_choices Seed ISPs quad st1 = Inr st2" by blast
  with w show ?thesis by (simp add: balance_def)
qed

lemma positive_marketing_budget:
  "0 < MarketingBudget \<Longrightarrow> 0 < moneypool i \<Longrightarrow> 0 < marketing_budget MarketingBudget i"
  by (simp add: marketing_budget_def not_le)

lemma pick_operators_returns:
  assumes quad: "quad < length operator_locations"
    and ne: "operator_locations ! quad \<noteq> []"
    and cov: "list_all (candidate_ok ISPs quad) (operator_locations ! quad)"
    and solvent: "list_all (\<lambda>index. 0 < moneypool (ISPs ! index)) (operator_locations ! quad)"
    and mb: "0 < MarketingBudget"
  shows "\<exists>r. pick_operators rnd_choices rnd_int ISPs quad operator_locations TimeBudget
                MarketingBudget Seed seed_counter = Some (Inr r)"
proof -
  let ?choices = "operator_locations ! quad"
  let ?budgets = "map (\<lambda>choice. marketing_budget MarketingBudget (ISPs ! choice)) ?choices"
  let ?tb = "if TimeBudget > int (length ?choices) then int (length ?choices) else TimeBudget"
  from cov have valid: "\<not> list_ex (\<lambda>choice. choice \<ge> length ISPs) ?choices"
    by (auto simp add: list_all_iff list_ex_iff candidate_ok_def)
  from solvent mb have bpos: "list_all (\<lambda>w. 0 < w) ?budgets"
    by (auto simp add: list_all_iff positive_marketing_budget)
  from ne have bne: "?budgets \<noteq> []" by simp
  from positive_sum [OF bpos bne] have total: "0 < sum_list ?budgets" .
  then obtain pr where em: "effective_marketing ?budgets = Inr pr"
      and pr: "pr = map (\<lambda>budget. budget / sum_list ?budgets) ?budgets"
    by (simp add: effective_marketing_def Let_def)
  from ensure_adds_to_1_normalised [OF em bne]
  have ea: "ensure_adds_to_1 rnd_int pr Seed seed_counter = Some (Inr (Some pr, seed_counter))" .
  let ?st = "\<lparr>ps_choices = ?choices, ps_weights = pr, ps_mobile = [], ps_wifi = [],
              ps_counter = seed_counter\<rparr>"
  from bpos total have "list_all (\<lambda>w. 0 < w) pr" by (auto simp add: pr list_all_iff)
  with cov have inv: "sampling_invariant ISPs quad ?st"
    by (simp add: sampling_invariant_def pr)
  have "?tb \<le> int (length (ps_choices ?st))" by simp
  from main_loop_returns [OF inv this, of rnd_choices Seed] obtain st1 where
      ml: "main_loop rnd_choices Seed ISPs quad ?tb ?st = Inr st1"
      and inv1: "sampling_invariant ISPs quad st1" by blast
  from balance_returns [OF inv1, of rnd_choices Seed] obtain r where
      "balance rnd_choices Seed ISPs quad st1 = Inr r" by blast
  with quad valid em ea ml show ?thesis
    by (cases r) (simp add: pick_operators_def Let_def)
qed

text \<open>
  C10 (totality of consideration sampling). The market of one firm with wifi in
  quadrants 0, 1 and 2 leaves the list of quadrant 3 empty, and every index in that list
  (there is none) names a firm that covers the quadrant. For a household of quadrant 3
  \<^verbatim>\<open>pick_operators\<close> builds the empty weight vector, \<^verbatim>\<open>ensure_adds_to_1\<close> finds a total
  of 0 and draws \<^verbatim>\<open>random.randint(0, -1)\<close>, from an empty range: the call ends in a
  ValueError before any loop is reached. (With a candidate in the list, a positive
  marketing rate and a positive moneypool for every candidate, the call returns:
  \<open>pick_operators_returns\<close>.)
\<close>

theorem pick_operators_empty_quadrant:
  "define_ISPs_per_location sample_regional_market = Inr [[0], [0], [0], []]
   \<and> pick_operators rnd_choices rnd_int sample_regional_market 3 [[0], [0], [0], []]
         TimeBudget MarketingBudget Seed seed_counter = Some (Inl ValueError)"
proof -
  have "define_ISPs_per_location sample_regional_market = Inr [[0], [0], [0], []]"
    by code_simp
  moreover have "pick_operators rnd_choices rnd_int sample_regional_market 3
      [[0], [0], [0], []] TimeBudget MarketingBudget Seed seed_counter = Some (Inl ValueError)"
    by (simp add: pick_operators_def effective_marketing_def ensure_adds_to_1_def)
  ultimately show ?thesis by simp
qed

subsection \<open>Switching costs\<close>

lemma for_each_nth:
  "for_each body xs vars = Some (Inr (ys, vars')) \<Longrightarrow>
   length ys = length xs
   \<and> (\<forall>k < length xs. \<exists>v1 v2. body (xs ! k) v1 = Some (Inr (ys ! k, v2)))"
proof (induction xs arbitrary: vars ys vars')
  case Nil
  then show ?case by simp
next
  case (Cons x xs)
  from Cons.prems obtain x' v1 xs' where
      head: "body x vars = Some (Inr (x', v1))"
      and rest: "for_each body xs v1 = Some (Inr (xs', vars'))"
      and ys: "ys = x' # xs'"
    by (auto split: option.splits sum.splits)
  from Cons.IH [OF rest] have len: "length xs' = length xs"
    and each: "\<forall>k < length xs. \<exists>v1 v2. body (xs ! k) v1 = Some (Inr (xs' ! k, v2))" by simp_all
  have "\<exists>v1 v2. body ((x # xs) ! k) v1 = Some (Inr (ys ! k, v2))" if "k < length (x # xs)" for k
  proof (cases k)
    case 0
    with head ys show ?thesis by auto
  next
    case (Suc j)
    with that each ys show ?thesis by simp
  qed
  with len ys show ?case by simp
qed

lemma reassess_result:
  "reassess rnd rnd_choices rnd_int ISPs operator_locations IB TimeBudget MarketingBudget
     PrS PrP Seed h vars = Some (Inr (h', vars')) \<Longrightarrow>
   hh_cost h' = hh_cost h \<and> hh_switcher h' = 1"
  by (auto simp add: reassess_def split: option.splits sum.splits prod.splits)

lemma update_household_result:
  assumes upd: "update_household rnd rnd_choices rnd_int ISPs replacements operator_locations
                  inc IB TimeBudget MarketingBudget PrS PrP Seed h vars = Some (Inr (h', vars'))"
    and pop: "populated (hh_person h)"
  shows "hh_cost h' = update_switching_cost (hh_switcher h) (hh_cost h) inc
       \<and> (\<exists>p percent bundle_update_trigger.
             check_bundle ISPs replacements IB (hh_person h)
               = Inr (p, percent, bundle_update_trigger)
             \<and> hh_switcher h' = (if bundle_update_trigger then 1 else 0))"
proof -
  from upd pop obtain p percent trigger where
    chk: "check_bundle ISPs replacements IB (hh_person h) = Inr (p, percent, trigger)"
    by (auto simp add: update_household_def Let_def split: sum.splits)
  let ?h0 = "h\<lparr>hh_cost := update_switching_cost (hh_switcher h) (hh_cost h) inc,
               hh_switcher := 0\<rparr>"
  show ?thesis
  proof (cases trigger)
    case True
    with upd pop chk obtain v1 where
      "reassess rnd rnd_choices rnd_int ISPs operator_locations IB TimeBudget MarketingBudget
         PrS PrP Seed (?h0\<lparr>hh_person := p\<rparr>) v1 = Some (Inr (h', vars'))"
      by (auto simp add: update_household_def Let_def)
    from reassess_result [OF this] chk True show ?thesis by auto
  next
    case False
    with upd pop chk have "hh_cost h' = hh_cost ?h0 \<and> hh_switcher h' = 0"
      by (auto simp add: update_household_def Let_def)
    with chk False show ?thesis by auto
  qed
qed

lemma stage_4_result:
  "stage_4 rnd rnd_choices rnd_int ISPs operator_locations IB TimeBudget MarketingBudget
     PrS PrP Seed h c = Some (Inr (h', c')) \<Longrightarrow>
   hh_cost h' = hh_cost h \<and> hh_switcher h' = 1"
  by (auto simp add: stage_4_def split: option.splits sum.splits prod.splits)

lemma sample_prep:
  "quadrant_of p = 0 \<Longrightarrow>
   prep_bundles sample_rnd_choices sample_rnd_int p [sample_full_service] 1 (1/10)
     [[0], [0], [0], [0]] 7 c
   = Some (Inr (([(sample_mobile, sample_wifi_50)], [sample_mobile], [sample_wifi_50]), c + 23))"
  by (simp add: prep_bundles_def pick_operators_def
      sample_full_service_def effective_marketing_def marketing_budget_def
      ensure_adds_to_1_def main_loop.simps main_step_def draw_operator_def
      random_choices_def sample_rnd_choices_def in_locations_def discard_choice_def
      slice_out_def renormalise_def balance_def wifi_loop.simps mobile_loop.simps
      plan_available_in_my_area_def sample_data_defs Let_def)

lemma sample_pass:
  "all_agents_updates sample_rnd sample_rnd_choices sample_rnd_int [sample_full_service] []
     [[0], [0], [0], [0]] (3/8) (1/8) 1 (1/10) (1/2) (1/2) 7 [sample_household (3/8) 0] 0
   = Some (Inr (1, [sample_reassessed (3/4) 1], 23))"
  by (simp add: all_agents_updates_def update_household_def check_bundle_def
      replace_gone_plan_def reassess_def sample_prep quadrant_of_def
      update_switching_cost_def sample_household_def sample_reassessed_def
      decision_defs sample_data_defs)

lemma sample_second_pass:
  "all_agents_updates sample_rnd sample_rnd_choices sample_rnd_int [sample_full_service] []
     [[0], [0], [0], [0]] (3/8) (1/8) 1 (1/10) (1/2) (1/2) 7 [sample_reassessed (3/4) 1] 23
   = Some (Inr (1, [sample_reassessed 0 1], 46))"
  by (simp add: all_agents_updates_def update_household_def check_bundle_def
      replace_gone_plan_def reassess_def sample_prep quadrant_of_def
      update_switching_cost_def sample_reassessed_def
      decision_defs sample_data_defs)

text \<open>
  C7 (switching-cost update rule), as stated: the cost decays toward zero when the
  household made no bundle change, is reset when it did, and stays in \<open>[0, 1)\<close>. From
  cost 0 with an increase of 3/8, three months without a change give 3/8, 3/4 and then
  9/8: the cost grows each month and leaves the interval. And what resets the cost is the
  entry of \<^verbatim>\<open>switchers\<close>, which is set after every call of \<^verbatim>\<open>decide_bundle\<close>: a household
  of income 640 that holds a bundle of price 80 under a ceiling of one eighth is sent to
  the decision engine each month and keeps its bundle each time; with cost 3/8 and a clear
  entry the first pass raises its cost to 3/4 and sets the entry, and the second pass
  resets the cost to 0, the bundle being the same throughout.
\<close>

theorem switching_cost_grows_past_one:
  "update_switching_cost 0 0 (3/8) = 3/8
   \<and> update_switching_cost 0 (3/8) (3/8) = 3/4
   \<and> update_switching_cost 0 (3/4) (3/8) = 9/8
   \<and> \<not> (update_switching_cost 0 (3/4) (3/8) \<le> 3/4)
   \<and> \<not> (update_switching_cost 0 (3/4) (3/8) < 1)
   \<and> all_agents_updates sample_rnd sample_rnd_choices sample_rnd_int [sample_full_service] []
         [[0], [0], [0], [0]] (3/8) (1/8) 1 (1/10) (1/2) (1/2) 7 [sample_household (3/8) 0] 0
       = Some (Inr (1, [sample_reassessed (3/4) 1], 23))
   \<and> all_agents_updates sample_rnd sample_rnd_choices sample_rnd_int [sample_full_service] []
         [[0], [0], [0], [0]] (3/8) (1/8) 1 (1/10) (1/2) (1/2) 7 [sample_reassessed (3/4) 1] 23
       = Some (Inr (1, [sample_reassessed 0 1], 46))
   \<and> current_bundle (hh_person (sample_household (3/8) 0))
       = current_bundle (hh_person (sample_reassessed (3/4) 1))
   \<and> current_bundle (hh_person (sample_reassessed (3/4) 1))
       = current_bundle (hh_person (sample_reassessed 0 1))
   \<and> hh_cost (sample_reassessed 0 1) = 0"
proof -
  have rule: "update_switching_cost 0 0 (3/8) = 3/8
      \<and> update_switching_cost 0 (3/8) (3/8) = 3/4
      \<and> update_switching_cost 0 (3/4) (3/8) = 9/8
      \<and> \<not> (update_switching_cost 0 (3/4) (3/8) \<le> 3/4)
      \<and> \<not> (update_switching_cost 0 (3/4) (3/8) < 1)"
    by (simp add: update_switching_cost_def)
  have same: "current_bundle (hh_person (sample_household (3/8) 0))
        = current_bundle (hh_person (sample_reassessed (3/4) 1))
      \<and> current_bundle (hh_person (sample_reassessed (3/4) 1))
        = current_bundle (hh_person (sample_reassessed 0 1))
      \<and> hh_cost (sample_reassessed 0 1) = 0"
    by (simp add: sample_household_def sample_reassessed_def sample_person_def)
  from rule sample_pass sample_second_pass same show ?thesis by blast
qed

text \<open>
  C7, amended: in every pass of \<^verbatim>\<open>all_agents_updates\<close>, the switching cost of each
  populated household is reset to exactly 0 if the household's entry of \<^verbatim>\<open>switchers\<close> is
  set, and otherwise is raised by SwitchingCostIncrease if it is below 1 and left as it is
  if it is 1 or more; with a non-negative increase a cost in \<open>[0, 1 + SwitchingCostIncrease)\<close>
  stays there. The pass leaves the entry of \<^verbatim>\<open>switchers\<close> at 1 if it sends the household
  to the decision engine (whether the bundle then changes or not) and at 0 otherwise.
\<close>

theorem switching_cost_update_rule:
  assumes pass: "all_agents_updates rnd rnd_choices rnd_int ISPs replacements operator_locations
                   inc IB TimeBudget MarketingBudget PrS PrP Seed households c
                 = Some (Inr (n, households', c'))"
    and k: "k < length households" and pop: "populated (hh_person (households ! k))"
  shows "length households' = length households
       \<and> hh_cost (households' ! k)
           = (if hh_switcher (households ! k) \<noteq> 0 then 0
              else if hh_cost (households ! k) < 1 then hh_cost (households ! k) + inc
              else hh_cost (households ! k))
       \<and> (\<exists>p percent bundle_update_trigger.
             check_bundle ISPs replacements IB (hh_person (households ! k))
               = Inr (p, percent, bundle_update_trigger)
             \<and> hh_switcher (households' ! k) = (if bundle_update_trigger then 1 else 0))
       \<and> (0 \<le> inc \<and> 0 \<le> hh_cost (households ! k) \<and> hh_cost (households ! k) < 1 + inc
            \<longrightarrow> 0 \<le> hh_cost (households' ! k) \<and> hh_cost (households' ! k) < 1 + inc)"
proof -
  let ?body = "update_household rnd rnd_choices rnd_int ISPs replacements operator_locations
                 inc IB TimeBudget MarketingBudget PrS PrP Seed"
  from pass obtain vars where
    loop: "for_each ?body households
             \<lparr>pv_income = None, pv_num_real_problems = 0, pv_counter = c\<rparr>
           = Some (Inr (households', vars))"
    by (auto simp add: all_agents_updates_def split: option.splits sum.splits)
  from for_each_nth [OF loop] k obtain v1 v2 where
    len: "length households' = length households"
    and upd: "?body (households ! k) v1 = Some (Inr (households' ! k, v2))" by blast
  from update_household_result [OF upd pop] have
    cost: "hh_cost (households' ! k)
             = update_switching_cost (hh_switcher (households ! k)) (hh_cost (households ! k)) inc"
    and flag: "\<exists>p percent bundle_update_trigger.
             check_bundle ISPs replacements IB (hh_person (households ! k))
               = Inr (p, percent, bundle_update_trigger)
             \<and> hh_switcher (households' ! k) = (if bundle_update_trigger then 1 else 0)"
    by simp_all
  from cost have rule: "hh_cost (households' ! k)
           = (if hh_switcher (households ! k) \<noteq> 0 then 0
              else if hh_cost (households ! k) < 1 then hh_cost (households ! k) + inc
              else hh_cost (households ! k))"
    by (simp add: update_switching_cost_def)
  from rule have bounds:
    "0 \<le> inc \<and> 0 \<le> hh_cost (households ! k) \<and> hh_cost (households ! k) < 1 + inc
       \<longrightarrow> 0 \<le> hh_cost (households' ! k) \<and> hh_cost (households' ! k) < 1 + inc"
    by auto
  from len rule flag bounds show ?thesis by blast
qed

theorem switching_cost_update_rule_witness:
  "hh_cost (sample_reassessed (3/4) 1) = hh_cost (sample_household (3/8) 0) + 3/8
   \<and> hh_switcher (sample_reassessed (3/4) 1) = 1
   \<and> check_bundle [sample_full_service] [] (1/8) (hh_person (sample_household (3/8) 0))
       = Inr (hh_person (sample_household (3/8) 0), Some (25/2), True)"
proof -
  have k: "(0::nat) < length [sample_household (3/8) 0]" by simp
  have pop: "populated (hh_person ([sample_household (3/8) 0] ! 0))"
    by (simp add: sample_household_def sample_person_def)
  have chk: "check_bundle [sample_full_service] [] (1/8) (hh_person (sample_household (3/8) 0))
       = Inr (hh_person (sample_household (3/8) 0), Some (25/2), True)"
    by (simp add: check_bundle_def replace_gone_plan_def decide_expenditure_def over_budget_def
        sample_household_def sample_person_def sample_data_defs)
  from switching_cost_update_rule [OF sample_pass k pop] chk show ?thesis
    by (auto simp add: sample_household_def)
qed

end
